theory Spec2Isabelle
  imports Complex_Main "HOL-Library.AList"
begin

section \<open>JavaScript array primitives\<close>

text \<open>
  \<^verbatim>\<open>Array.prototype.indexOf\<close>: the index of the first element strictly equal to the
  argument, and \<open>-1\<close> when there is none.
\<close>

fun indexOf :: "'a list \<Rightarrow> 'a \<Rightarrow> int" where
  "indexOf [] x = - 1"
| "indexOf (y # ys) x =
     (if y = x then 0
      else (let i = indexOf ys x in if i = - 1 then - 1 else i + 1))"

text \<open>
  \<^verbatim>\<open>xs.splice(start, 1)\<close>: removes one element at \<open>start\<close>. A negative \<open>start\<close> counts
  from the end of the array (so \<open>-1\<close> is the last element), and a \<open>start\<close> beyond the
  array removes nothing.
\<close>

definition splice1 :: "'a list \<Rightarrow> int \<Rightarrow> 'a list" where
  "splice1 xs start =
     (let n = int (length xs);
          s = (if start < 0 then max (n + start) 0 else min start n)
      in take (nat s) xs @ drop (nat s + 1) xs)"

text \<open>\<^verbatim>\<open>xs[k]\<close>: \<open>None\<close> stands for \<^verbatim>\<open>undefined\<close>, the value of an out-of-range read.\<close>

definition array_get :: "'a list \<Rightarrow> int \<Rightarrow> 'a option" where
  "array_get xs k = (if 0 \<le> k \<and> k < int (length xs) then Some (xs ! nat k) else None)"

section \<open>The tunnel server\<close>

subsection \<open>Options\<close>

text \<open>
  A port bound is a JavaScript number or \<^verbatim>\<open>undefined\<close> (\<open>None\<close>), the value of a
  property the caller left out.
\<close>

record port_range =
  range_min :: "int option"
  range_max :: "int option"

text \<open>
  The options the server reads. The \<^verbatim>\<open>server\<close> transport and the \<^verbatim>\<open>logger\<close> are
  collaborators outside this development.
\<close>

record server_options =
  serverPort :: int
  maxTunnels :: int
  gatewayPortRange :: port_range
  autoBindServer :: bool

text \<open>\<^verbatim>\<open>TunnelServer.DEFAULTS\<close>, as the source writes it.\<close>

definition DEFAULTS :: server_options where
  "DEFAULTS =
     \<lparr>serverPort = 4001,
      maxTunnels = 3,
      gatewayPortRange = \<lparr>range_min = Some 4002, range_max = Some 4004\<rparr>,
      autoBindServer = True\<rparr>"

text \<open>What a caller passes to the constructor: every property may be left out.\<close>

record user_options =
  opt_serverPort :: "int option"
  opt_maxTunnels :: "int option"
  opt_gatewayPortRange :: "port_range option"
  opt_autoBindServer :: "bool option"

text \<open>
  \<^verbatim>\<open>merge(Object.create(TunnelServer.DEFAULTS), options)\<close>: a shallow merge, where a
  property of \<^verbatim>\<open>options\<close> replaces the default as a whole (a supplied
  \<^verbatim>\<open>gatewayPortRange\<close> with no \<^verbatim>\<open>min\<close> leaves \<^verbatim>\<open>min\<close> undefined).
\<close>

definition merge_options :: "server_options \<Rightarrow> user_options \<Rightarrow> server_options" where
  "merge_options d u =
     \<lparr>serverPort = (case opt_serverPort u of None \<Rightarrow> serverPort d | Some v \<Rightarrow> v),
      maxTunnels = (case opt_maxTunnels u of None \<Rightarrow> maxTunnels d | Some v \<Rightarrow> v),
      gatewayPortRange =
        (case opt_gatewayPortRange u of None \<Rightarrow> gatewayPortRange d | Some v \<Rightarrow> v),
      autoBindServer =
        (case opt_autoBindServer u of None \<Rightarrow> autoBindServer d | Some v \<Rightarrow> v)\<rparr>"

definition no_options :: user_options where
  "no_options =
     \<lparr>opt_serverPort = None, opt_maxTunnels = None,
      opt_gatewayPortRange = None, opt_autoBindServer = None\<rparr>"

subsection \<open>State\<close>

text \<open>
  A gateway object made by \<^verbatim>\<open>createGateway\<close>, with the variables its listeners close
  over: \<^verbatim>\<open>authID\<close> (first the gateway's own entrance token, then the token of its
  \<^verbatim>\<open>open\<close> event) and \<^verbatim>\<open>usedPort\<close> (\<^verbatim>\<open>null\<close>, here \<open>None\<close>, until the gateway
  opens). \<open>gw_port\<close> is the port handed to the constructor.
\<close>

record gateway =
  gw_port :: "int option"
  gw_authID :: string
  gw_usedPort :: "int option"

text \<open>The two calls of the \<^verbatim>\<open>verifyClient\<close> callback: \<^verbatim>\<open>callback(false, 401)\<close> and
  \<^verbatim>\<open>callback(true)\<close>.\<close>

datatype verify_result = Reject nat | Accept

text \<open>What the server lets the outside see: the events it emits and the calls of
  the \<^verbatim>\<open>createGateway\<close> and \<^verbatim>\<open>verifyClient\<close> callbacks, in order.\<close>

datatype server_output =
    Emit_ready
  | Emit_locked
  | Emit_unlocked
  | Callback_error string
  | Callback_gateway nat
  | Callback_verify verify_result

text \<open>
  \<open>gateways\<close> is the object \<^verbatim>\<open>_gateways\<close>, keyed by token (an association list that
  keeps one entry per key); its values are references into \<open>created\<close>, the gateway
  objects made so far. \<open>authorized\<close> and \<open>usedPorts\<close> are arrays.
\<close>

record server =
  options :: server_options
  gateways :: "(string \<times> nat) list"
  authorized :: "string list"
  usedPorts :: "int list"
  created :: "gateway list"
  outputs :: "server_output list"

definition TunnelServer :: "user_options \<Rightarrow> server" where
  "TunnelServer u =
     \<lparr>options = merge_options DEFAULTS u,
      gateways = [],
      authorized = [],
      usedPorts = [],
      created = [],
      outputs = []\<rparr>"

subsection \<open>Leasing a port\<close>

text \<open>\<^verbatim>\<open>while (start <= end) { available.push(start++); }\<close>\<close>

function push_range :: "int \<Rightarrow> int \<Rightarrow> int list \<Rightarrow> int list" where
  "push_range start end_port available =
     (if start \<le> end_port then push_range (start + 1) end_port (available @ [start])
      else available)"
  by pat_completeness auto
termination
  by (relation "measure (\<lambda>(s, e, a). nat (e + 1 - s))") auto

text \<open>The \<^verbatim>\<open>for\<close> loop over \<^verbatim>\<open>_usedPorts\<close>: each used port found in \<^verbatim>\<open>available\<close>
  is spliced out of it.\<close>

fun remove_used :: "int list \<Rightarrow> int list \<Rightarrow> int list" where
  "remove_used [] available = available"
| "remove_used (p # ps) available =
     remove_used ps
       (if indexOf available p \<noteq> - 1 then splice1 available (indexOf available p)
        else available)"

text \<open>
  The number \<^verbatim>\<open>Math.random()\<close> returns is a double in \<open>[0, 1)\<close>. Every such double
  is a number \<open>m / 2 ^ e\<close> whose numerator \<open>m\<close> has at most 53 binary digits and is
  below \<open>2 ^ e\<close>; \<open>is_unit_double\<close> says so of a pair of numerator and exponent.
\<close>

record random_number =
  rnd_numerator :: nat
  rnd_exponent :: nat

definition random_value :: "random_number \<Rightarrow> real" where
  "random_value r = real (rnd_numerator r) / 2 ^ rnd_exponent r"

definition is_unit_double :: "random_number \<Rightarrow> bool" where
  "is_unit_double r \<longleftrightarrow>
     rnd_numerator r < 2 ^ 53 \<and> rnd_numerator r < 2 ^ rnd_exponent r"

text \<open>The number of binary digits of a natural number.\<close>

fun bit_length :: "nat \<Rightarrow> nat" where
  "bit_length n = (if n = 0 then 0 else Suc (bit_length (n div 2)))"

text \<open>
  The product of two doubles is the exact product rounded to a double: to 53
  significant binary digits, to the nearest, a tie to the even neighbour.
  \<open>round_to_double M\<close> rounds the natural number \<open>M\<close> so; the double product of
  \<open>m / 2 ^ e\<close> and the integer \<open>n\<close> is \<open>round_to_double (m * n) / 2 ^ e\<close>. (A
  product in the subnormal range is rounded to fewer digits; it is below 1 either way.)
\<close>

definition round_to_double :: "nat \<Rightarrow> nat" where
  "round_to_double M =
     (if M < 2 ^ 53 then M
      else
        (let s = bit_length M - 53;
             q = M div 2 ^ s;
             rest = M mod 2 ^ s;
             half = 2 ^ (s - 1)
         in (if half < rest \<or> (rest = half \<and> odd q) then q + 1 else q) * 2 ^ s))"

text \<open>\<^verbatim>\<open>Math.floor(Math.random() * n)\<close>, for the random number \<open>r\<close> and an array
  length \<open>n\<close>.\<close>

definition random_index :: "random_number \<Rightarrow> nat \<Rightarrow> nat" where
  "random_index r n = round_to_double (rnd_numerator r * n) div 2 ^ rnd_exponent r"

text \<open>The random numbers 0 and 1/2, and a double just below 4/7.\<close>

definition random_zero :: random_number where
  "random_zero = \<lparr>rnd_numerator = 0, rnd_exponent = 0\<rparr>"

definition random_half :: random_number where
  "random_half = \<lparr>rnd_numerator = 1, rnd_exponent = 1\<rparr>"

definition random_near_four_sevenths :: random_number where
  "random_near_four_sevenths = \<lparr>rnd_numerator = 2573485501354569, rnd_exponent = 52\<rparr>"

text \<open>
  \<^verbatim>\<open>_getAvailablePort\<close>. \<open>r\<close> is the number \<^verbatim>\<open>Math.random()\<close> returns. A falsy
  \<^verbatim>\<open>min\<close> is \<^verbatim>\<open>undefined\<close> or \<open>0\<close>; with \<^verbatim>\<open>max\<close> undefined the comparison
  \<^verbatim>\<open>start <= end\<close> is false and nothing is pushed. The result \<open>None\<close> is
  \<^verbatim>\<open>undefined\<close>: what indexing the empty array gives.
\<close>

definition getAvailablePort :: "server \<Rightarrow> random_number \<Rightarrow> int option" where
  "getAvailablePort s r =
     (case range_min (gatewayPortRange (options s)) of
        None \<Rightarrow> Some 0
      | Some start \<Rightarrow>
          if start = 0 then Some 0
          else
            (let available =
                   (case range_max (gatewayPortRange (options s)) of
                      None \<Rightarrow> []
                    | Some end_port \<Rightarrow> push_range start end_port []);
                 available' = remove_used (usedPorts s) available
             in array_get available' (int (random_index r (length available')))))"

subsection \<open>Creating a gateway\<close>

text \<open>
  \<^verbatim>\<open>createGateway(callback)\<close>. \<open>token\<close> is the entrance token the new gateway object
  reports (\<^verbatim>\<open>gateway.getEntranceToken()\<close>) and \<open>r\<close> the random number used for the
  port. Under the cap the gateway is made, its listeners are attached and
  \<^verbatim>\<open>gateway.open()\<close> is called; the gateway enters \<open>gateways\<close> only when its
  \<^verbatim>\<open>open\<close> event arrives.
\<close>

definition createGateway :: "server \<Rightarrow> string \<Rightarrow> random_number \<Rightarrow> server" where
  "createGateway s token r =
     (if maxTunnels (options s) \<le> int (length (gateways s))
      then s\<lparr>outputs := outputs s @ [Callback_error ''Maximum number of tunnels open'']\<rparr>
      else s\<lparr>created := created s @
                 [\<lparr>gw_port = getAvailablePort s r, gw_authID = token, gw_usedPort = None\<rparr>]\<rparr>)"

text \<open>
  The listener on the gateway's \<^verbatim>\<open>open\<close> event. \<open>g\<close> is the gateway (its index in
  \<open>created\<close>), \<open>token\<close> the event's argument and \<open>port\<close> what
  \<^verbatim>\<open>gateway.getEntranceAddress().port\<close> returns.
\<close>

definition gateway_on_open :: "server \<Rightarrow> nat \<Rightarrow> string \<Rightarrow> int \<Rightarrow> server" where
  "gateway_on_open s g token port =
     (if g < length (created s) then
        (let gw = (created s ! g)\<lparr>gw_authID := token, gw_usedPort := Some port\<rparr>;
             gateways' = AList.update token g (gateways s);
             locked = (if maxTunnels (options s) \<le> int (length gateways')
                       then [Emit_locked] else [])
         in s\<lparr>created := (created s)[g := gw],
               gateways := gateways',
               usedPorts := usedPorts s @ [port],
               authorized := authorized s @ [token],
               outputs := outputs s @ locked @ [Callback_gateway g]\<rparr>)
      else s)"

text \<open>The listener on the gateway's \<^verbatim>\<open>close\<close> event. \<^verbatim>\<open>indexOf(null)\<close> is \<open>-1\<close>.\<close>

definition gateway_on_close :: "server \<Rightarrow> nat \<Rightarrow> server" where
  "gateway_on_close s g =
     (if g < length (created s) then
        (let gw = created s ! g;
             i = (case gw_usedPort gw of None \<Rightarrow> - 1 | Some p \<Rightarrow> indexOf (usedPorts s) p)
         in s\<lparr>gateways := AList.delete (gw_authID gw) (gateways s),
               usedPorts := splice1 (usedPorts s) i,
               outputs := outputs s @ [Emit_unlocked]\<rparr>)
      else s)"

text \<open>\<^verbatim>\<open>gateway.on('error', callback)\<close>\<close>

definition gateway_on_error :: "server \<Rightarrow> nat \<Rightarrow> string \<Rightarrow> server" where
  "gateway_on_error s g err =
     (if g < length (created s) then s\<lparr>outputs := outputs s @ [Callback_error err]\<rparr> else s)"

text \<open>\<^verbatim>\<open>hasTunnelAvailable\<close>\<close>

definition hasTunnelAvailable :: "server \<Rightarrow> bool" where
  "hasTunnelAvailable s \<longleftrightarrow> int (length (gateways s)) < maxTunnels (options s)"

subsection \<open>Admission\<close>

text \<open>
  The value of \<^verbatim>\<open>query.token\<close> after \<^verbatim>\<open>qs.parse\<close>: undefined when the query has no
  token, a string, or an array when the parameter is repeated.
\<close>

datatype qs_value = QUndefined | QString string | QArray "string list"

text \<open>An upgrade request: its URL, and the token the URL's query parses to.\<close>

record request =
  req_url :: string
  req_query_token :: qs_value

definition extractTokenFromRequest :: "request \<Rightarrow> qs_value" where
  "extractTokenFromRequest req = req_query_token req"

text \<open>\<^verbatim>\<open>_verifyClient\<close>. The authorized tokens are strings, so only a string token can
  be strictly equal to one of them.\<close>

definition verifyClient :: "server \<Rightarrow> request \<Rightarrow> verify_result \<times> server" where
  "verifyClient s req =
     (let token = extractTokenFromRequest req;
          i = indexOf (map QString (authorized s)) token
      in if i = - 1 then (Reject 401, s)
         else (Accept, s\<lparr>authorized := splice1 (authorized s) i\<rparr>))"

text \<open>An upgrade request at \<^verbatim>\<open>/tun\<close> whose query carries the token \<open>t\<close>.\<close>

definition upgrade_request :: "string \<Rightarrow> request" where
  "upgrade_request t = \<lparr>req_url = ''/tun?token='' @ t, req_query_token = QString t\<rparr>"

text \<open>
  Modelled from the spec: the gateway (\<^verbatim>\<open>lib/tunnel/gateway.js\<close>) is not among the
  sources. \<^verbatim>\<open>open()\<close> binds asynchronously and the gateway emits \<^verbatim>\<open>open(token)\<close>
  later, so each event of a gateway is an input of its own, after \<^verbatim>\<open>createGateway\<close>
  has returned. The other inputs are the calls of \<^verbatim>\<open>createGateway\<close> and the
  upgrade requests.
\<close>

datatype server_input =
    CreateGateway string random_number
  | GatewayOpen nat string int
  | GatewayClose nat
  | GatewayError nat string
  | Upgrade request

fun server_step :: "server \<Rightarrow> server_input \<Rightarrow> server" where
  "server_step s (CreateGateway token r) = createGateway s token r"
| "server_step s (GatewayOpen g token port) = gateway_on_open s g token port"
| "server_step s (GatewayClose g) = gateway_on_close s g"
| "server_step s (GatewayError g err) = gateway_on_error s g err"
| "server_step s (Upgrade req) =
     (case verifyClient s req of
        (res, s') \<Rightarrow> s'\<lparr>outputs := outputs s' @ [Callback_verify res]\<rparr>)"

definition server_run :: "server \<Rightarrow> server_input list \<Rightarrow> server" where
  "server_run s evs = foldl server_step s evs"

text \<open>The tokens of the \<^verbatim>\<open>open\<close> events among the inputs, in order.\<close>

fun opened_tokens :: "server_input list \<Rightarrow> string list" where
  "opened_tokens [] = []"
| "opened_tokens (GatewayOpen g token port # evs) = token # opened_tokens evs"
| "opened_tokens (e # evs) = opened_tokens evs"

subsection \<open>The free subset of the port range\<close>

text \<open>
  The ports of the inclusive range \<open>[min, max]\<close> that are not in \<open>usedPorts\<close>, in
  ascending order: the set the specification says a port is leased from. It is stated
  apart from \<open>getAvailablePort\<close>, which is compared with it below.
\<close>

definition free_ports :: "server \<Rightarrow> int list" where
  "free_ports s =
     (case (range_min (gatewayPortRange (options s)),
            range_max (gatewayPortRange (options s))) of
        (Some lo, Some hi) \<Rightarrow> filter (\<lambda>p. p \<notin> set (usedPorts s)) [lo..hi]
      | _ \<Rightarrow> [])"


subsection \<open>Server states used as examples\<close>

text \<open>A cap of one tunnel; two gateways are requested before either has opened, on
  ports 4002 and 4003 of the default range, and then both open.\<close>

definition race_server :: server where
  "race_server =
     server_run (TunnelServer (no_options\<lparr>opt_maxTunnels := Some 1\<rparr>))
       [CreateGateway ''A'' random_zero, CreateGateway ''B'' random_half,
        GatewayOpen 0 ''A'' 4002, GatewayOpen 1 ''B'' 4003]"

text \<open>The default server after one gateway has opened on port 4002.\<close>

definition one_gateway_server :: server where
  "one_gateway_server =
     server_run (TunnelServer no_options) [CreateGateway ''A'' random_zero, GatewayOpen 0 ''A'' 4002]"

text \<open>A cap of one tunnel and one gateway requested, not yet open.\<close>

definition pending_server :: server where
  "pending_server =
     server_run (TunnelServer (no_options\<lparr>opt_maxTunnels := Some 1\<rparr>))
       [CreateGateway ''A'' random_zero]"

text \<open>The default server with one gateway requested, not yet open.\<close>

definition requested_server :: server where
  "requested_server = server_run (TunnelServer no_options) [CreateGateway ''A'' random_zero]"

text \<open>A server with the seven ports 4002 to 4008, none of them in use.\<close>

definition seven_port_server :: server where
  "seven_port_server =
     TunnelServer
       (no_options\<lparr>opt_gatewayPortRange :=
          Some \<lparr>range_min = Some 4002, range_max = Some 4008\<rparr>\<rparr>)"

text \<open>A port range of the single port 5000, which an open gateway holds.\<close>

definition full_range_server :: server where
  "full_range_server =
     server_run
       (TunnelServer
          (no_options\<lparr>opt_gatewayPortRange :=
             Some \<lparr>range_min = Some 5000, range_max = Some 5000\<rparr>\<rparr>))
       [CreateGateway ''A'' random_zero, GatewayOpen 0 ''A'' 5000]"


section \<open>The tunnel client\<close>

subsection \<open>Values, errors, frames\<close>

text \<open>The JavaScript values a caller may pass where the client expects a string.\<close>

datatype js_value =
    JUndefined
  | JNull
  | JBoolean bool
  | JNumber int
  | JString string
  | JObject
  | JFunction

fun typeof :: "js_value \<Rightarrow> string" where
  "typeof JUndefined = ''undefined''"
| "typeof JNull = ''object''"
| "typeof (JBoolean b) = ''boolean''"
| "typeof (JNumber n) = ''number''"
| "typeof (JString s) = ''string''"
| "typeof JObject = ''object''"
| "typeof JFunction = ''function''"

text \<open>
  What a function of the client throws: a failed \<^verbatim>\<open>assert\<close>, with its message, the
  \<^verbatim>\<open>TypeError\<close> of a method call on \<^verbatim>\<open>null\<close> or on a value without the method, or
  the error of an \<^verbatim>\<open>error\<close> event that is emitted while nobody listens for it.
\<close>

datatype js_error = AssertionError string | TypeError string | Unhandled_error string

text \<open>
  The data a frame or a socket message carries: bytes, a string, a \<^verbatim>\<open>kad.Message\<close>
  (kept as its serialization), or the string
  \<^verbatim>\<open>JSON.stringify({ code: code, message: message })\<close>, kept as the two values it
  serializes.
\<close>

datatype payload =
    Buffer "nat list"
  | Text string
  | Message string
  | Json_code_message int string

text \<open>A frame's \<^verbatim>\<open>flags\<close> object; a property that is absent is \<open>None\<close>.\<close>

record flags =
  binary :: "bool option"
  quid :: "string option"

record frame =
  frame_type :: string
  frame_data :: payload
  frame_flags :: flags

subsection \<open>Sockets\<close>

text \<open>
  The listeners a socket carries say what it is: the tunnel socket of \<open>client_open\<close>,
  or a loopback socket of \<open>handleDataChannel\<close>, whose listeners close over the
  \<^verbatim>\<open>quid\<close> and over the data and \<^verbatim>\<open>binary\<close> flag of the frame that opened it.
\<close>

datatype listeners =
    Tunnel_listeners
  | Loopback_listeners "string option" payload "bool option"

text \<open>
  Where a socket connects: the tunnel URI, or the loopback destination
  \<^verbatim>\<open>'ws://' + hostname + ':' + port\<close> of the parsed target URI (kept as that URI).
\<close>

datatype address = Tunnel_uri js_value | Loopback_of js_value

text \<open>
  A \<^verbatim>\<open>ws\<close> socket: its \<^verbatim>\<open>readyState\<close> (\<open>0\<close> connecting, \<open>1\<close> open, \<open>2\<close> closing,
  \<open>3\<close> closed), the sends queued by \<^verbatim>\<open>once('open', ...)\<close>, what was sent on it,
  and how often \<^verbatim>\<open>close()\<close> was called on it.
\<close>

record websocket =
  ws_address :: address
  ws_readyState :: nat
  ws_listeners :: listeners
  ws_once_open :: "(payload \<times> bool option) list"
  ws_sent :: "(payload \<times> bool option) list"
  ws_close_calls :: nat

definition WS_CONNECTING :: nat where "WS_CONNECTING = 0"
definition WS_OPEN :: nat where "WS_OPEN = 1"
definition WS_CLOSING :: nat where "WS_CLOSING = 2"
definition WS_CLOSED :: nat where "WS_CLOSED = 3"

definition WebSocketClient :: "address \<Rightarrow> listeners \<Rightarrow> websocket" where
  "WebSocketClient a l =
     \<lparr>ws_address = a, ws_readyState = WS_CONNECTING, ws_listeners = l,
      ws_once_open = [], ws_sent = [], ws_close_calls = 0\<rparr>"

subsection \<open>The client object\<close>

text \<open>
  The muxer and the demuxer (the frame codec, a collaborator), as far as the client
  handles them: whether the client's listeners are attached. How a written frame is
  encoded, and its way from the muxer to the tunnel socket, are the codec's.
\<close>

record tunnel_muxer =
  mux_listeners :: bool

record tunnel_demuxer =
  demux_listeners :: bool

datatype client_event = Event_open | Event_close | Event_error string

text \<open>
  \<open>tunnel\<close>, \<open>muxer\<close> and \<open>demuxer\<close> are \<^verbatim>\<open>null\<close> (\<open>None\<close>) until \<open>client_open\<close>.
  Sockets are objects shared between the client and their listeners, so they live in
  the store \<open>sockets\<close>; \<open>tunnel\<close> and the values of \<open>channels\<close> refer to them by
  index. \<open>emitted\<close> are the events the client emits, \<open>written\<close> the frames it writes
  to its muxer and \<open>requests\<close> the HTTP POSTs it issues (target and body), each in
  order. \<open>error_listener\<close> says whether the client's owner has attached a listener
  for the \<^verbatim>\<open>error\<close> event; the constructor attaches none.
\<close>

record client =
  tunuri :: js_value
  target :: js_value
  tunnel :: "nat option"
  muxer :: "tunnel_muxer option"
  demuxer :: "tunnel_demuxer option"
  channels :: "(string \<times> nat) list"
  readyState :: nat
  sockets :: "websocket list"
  emitted :: "client_event list"
  written :: "frame list"
  requests :: "(js_value \<times> string) list"
  error_listener :: bool

definition CLIENT_OPEN :: nat where "CLIENT_OPEN = 1"
definition CLIENT_CLOSED :: nat where "CLIENT_CLOSED = 0"

text \<open>The constructor. The \<^verbatim>\<open>options\<close> argument only carries the logger.\<close>

definition TunnelClient :: "js_value \<Rightarrow> js_value \<Rightarrow> js_error + client" where
  "TunnelClient tunnel_arg target_arg =
     (if typeof tunnel_arg \<noteq> ''string''
        then Inl (AssertionError ''Invalid tunnel address supplied'')
      else if typeof target_arg \<noteq> ''string''
        then Inl (AssertionError ''Invalid target address supplied'')
      else Inr \<lparr>tunuri = tunnel_arg, target = target_arg, tunnel = None, muxer = None,
                demuxer = None, channels = [], readyState = CLIENT_CLOSED, sockets = [],
                emitted = [], written = [], requests = [], error_listener = False\<rparr>)"

text \<open>\<^verbatim>\<open>TunnelClient.prototype.open\<close>: a new demuxer, muxer and tunnel socket, with the
  client's listeners attached.\<close>

definition client_open :: "client \<Rightarrow> client" where
  "client_open c =
     c\<lparr>demuxer := Some \<lparr>demux_listeners = True\<rparr>,
       muxer := Some \<lparr>mux_listeners = True\<rparr>,
       tunnel := Some (length (sockets c)),
       sockets := sockets c @ [WebSocketClient (Tunnel_uri (tunuri c)) Tunnel_listeners]\<rparr>"

text \<open>
  \<^verbatim>\<open>TunnelClient.prototype.close\<close>, with the value it returns. A \<^verbatim>\<open>null\<close> muxer or
  demuxer next to a tunnel would make \<^verbatim>\<open>removeAllListeners\<close> throw.
\<close>

definition client_close :: "client \<Rightarrow> js_error + bool \<times> client" where
  "client_close c =
     (case tunnel c of
        None \<Rightarrow> Inr (False, c)
      | Some t \<Rightarrow>
          (case muxer c of
             None \<Rightarrow> Inl (TypeError ''removeAllListeners of null'')
           | Some m \<Rightarrow>
               (case demuxer c of
                  None \<Rightarrow> Inl (TypeError ''removeAllListeners of null'')
                | Some d \<Rightarrow>
                    (let sock = sockets c ! t;
                         sock' = (if ws_readyState sock = WS_CONNECTING
                                     \<or> ws_readyState sock = WS_OPEN
                                  then sock\<lparr>ws_close_calls := Suc (ws_close_calls sock)\<rparr>
                                  else sock)
                     in Inr (True,
                          c\<lparr>muxer := Some (m\<lparr>mux_listeners := False\<rparr>),
                            demuxer := Some (d\<lparr>demux_listeners := False\<rparr>),
                            sockets := (sockets c)[t := sock'],
                            tunnel := None,
                            readyState := CLIENT_CLOSED,
                            emitted := emitted c @ [Event_close]\<rparr>)))))"

subsection \<open>The handlers\<close>

text \<open>
  \<^verbatim>\<open>this.emit('error', err)\<close>. The client is an \<^verbatim>\<open>EventEmitter\<close>: an \<^verbatim>\<open>error\<close>
  event emitted while no listener is attached for it is thrown by \<^verbatim>\<open>emit\<close>.
\<close>

definition emit_error :: "client \<Rightarrow> string \<Rightarrow> js_error + client" where
  "emit_error c err =
     (if error_listener c then Inr (c\<lparr>emitted := emitted c @ [Event_error err]\<rparr>)
      else Inl (Unhandled_error err))"

text \<open>\<^verbatim>\<open>this._muxer.write(frame)\<close>\<close>

definition muxer_write :: "client \<Rightarrow> frame \<Rightarrow> js_error + client" where
  "muxer_write c f =
     (case muxer c of
        None \<Rightarrow> Inl (TypeError ''write of null'')
      | Some m \<Rightarrow> Inr (c\<lparr>written := written c @ [f]\<rparr>))"

text \<open>\<^verbatim>\<open>_handleRPC\<close>: the POST of the serialized message to the target.\<close>

definition handleRPC :: "client \<Rightarrow> frame \<Rightarrow> js_error + client" where
  "handleRPC c object =
     (case frame_data object of
        Message body \<Rightarrow> Inr (c\<lparr>requests := requests c @ [(target c, body)]\<rparr>)
      | _ \<Rightarrow> Inl (TypeError ''serialize is not a function''))"

text \<open>
  \<^verbatim>\<open>_forwardResponse(err, res, body)\<close>, the callback of the POST. \<open>err\<close> is \<^verbatim>\<open>null\<close>
  (\<open>None\<close>) or the error of the failed request, by its message. \<open>fromBuffer\<close> is
  \<^verbatim>\<open>kad.Message.fromBuffer\<close>, a function of the \<^verbatim>\<open>kad\<close> library, which may throw.
\<close>

definition forwardResponse ::
  "(string \<Rightarrow> js_error + payload) \<Rightarrow> client \<Rightarrow> string option \<Rightarrow> string \<Rightarrow> js_error + client"
where
  "forwardResponse fromBuffer c err body =
     (case err of
        Some e \<Rightarrow> emit_error c e
      | None \<Rightarrow>
          (case fromBuffer body of
             Inl ex \<Rightarrow> Inl ex
           | Inr msg \<Rightarrow>
               muxer_write c
                 \<lparr>frame_type = ''rpc'', frame_data = msg,
                  frame_flags = \<lparr>binary = None, quid = None\<rparr>\<rparr>))"

text \<open>The property key a \<^verbatim>\<open>quid\<close> is stored under in \<^verbatim>\<open>_channels\<close>.\<close>

definition key_of :: "string option \<Rightarrow> string" where
  "key_of q = (case q of None \<Rightarrow> ''undefined'' | Some k \<Rightarrow> k)"

text \<open>\<^verbatim>\<open>sock.send(data, { binary: b })\<close> on the socket \<open>sid\<close>.\<close>

definition socket_send :: "client \<Rightarrow> nat \<Rightarrow> payload \<Rightarrow> bool option \<Rightarrow> client" where
  "socket_send c sid d b =
     c\<lparr>sockets := (sockets c)[sid := (sockets c ! sid)\<lparr>ws_sent := ws_sent (sockets c ! sid) @ [(d, b)]\<rparr>]\<rparr>"

text \<open>\<^verbatim>\<open>_sendToExistingSocket\<close>: the send waits for \<^verbatim>\<open>open\<close> on a socket that is not
  open.\<close>

definition sendToExistingSocket :: "client \<Rightarrow> frame \<Rightarrow> js_error + client" where
  "sendToExistingSocket c object =
     (case map_of (channels c) (key_of (quid (frame_flags object))) of
        None \<Rightarrow> Inl (TypeError ''readyState of undefined'')
      | Some sid \<Rightarrow>
          (let sock = sockets c ! sid;
               d = frame_data object;
               b = binary (frame_flags object)
           in if ws_readyState sock \<noteq> WS_OPEN
              then Inr (c\<lparr>sockets :=
                          (sockets c)[sid := sock\<lparr>ws_once_open := ws_once_open sock @ [(d, b)]\<rparr>]\<rparr>)
              else Inr (socket_send c sid d b)))"

text \<open>\<^verbatim>\<open>_handleDataChannel\<close>\<close>

definition handleDataChannel :: "client \<Rightarrow> frame \<Rightarrow> js_error + client" where
  "handleDataChannel c object =
     (let q = quid (frame_flags object) in
      case map_of (channels c) (key_of q) of
        Some sid \<Rightarrow> sendToExistingSocket c object
      | None \<Rightarrow>
          Inr (c\<lparr>channels := AList.update (key_of q) (length (sockets c)) (channels c),
                 sockets := sockets c @
                   [WebSocketClient (Loopback_of (target c))
                      (Loopback_listeners q (frame_data object) (binary (frame_flags object)))]\<rparr>))"

text \<open>The listener on the demuxer's \<^verbatim>\<open>data\<close> event.\<close>

definition demuxer_on_data :: "client \<Rightarrow> frame \<Rightarrow> js_error + client" where
  "demuxer_on_data c object =
     (if frame_type object = ''rpc'' then handleRPC c object
      else if frame_type object = ''datachannel'' then handleDataChannel c object
      else emit_error c ''Cannot handle tunnel frame type'')"

text \<open>
  The listeners on the tunnel socket \<open>sid\<close>. In the \<^verbatim>\<open>open\<close> listener \<^verbatim>\<open>this\<close> is the
  socket the event is emitted on, so \<^verbatim>\<open>this.readyState = TunnelClient.OPEN\<close> assigns
  the socket's property; the listener then emits the client's \<^verbatim>\<open>open\<close>.
\<close>

definition tunnel_on_open :: "client \<Rightarrow> nat \<Rightarrow> client" where
  "tunnel_on_open c sid =
     c\<lparr>sockets := (sockets c)[sid := (sockets c ! sid)\<lparr>ws_readyState := CLIENT_OPEN\<rparr>],
       emitted := emitted c @ [Event_open]\<rparr>"

definition tunnel_on_close :: "client \<Rightarrow> js_error + client" where
  "tunnel_on_close c = map_sum id snd (client_close c)"

definition tunnel_on_error :: "client \<Rightarrow> string \<Rightarrow> js_error + client" where
  "tunnel_on_error c err =
     (case client_close c of
        Inl ex \<Rightarrow> Inl ex
      | Inr (r, c') \<Rightarrow> emit_error c' err)"

text \<open>
  The listeners on a loopback socket \<open>sid\<close>, with the variables \<open>q\<close> (the \<^verbatim>\<open>quid\<close>),
  \<open>d\<close> and \<open>b\<close> (data and \<^verbatim>\<open>binary\<close> flag of the frame that opened it) they close
  over. On \<^verbatim>\<open>open\<close> the first listener sends that frame's data; the sends queued by
  \<open>sendToExistingSocket\<close> follow.
\<close>

definition loopback_on_open :: "client \<Rightarrow> nat \<Rightarrow> payload \<Rightarrow> bool option \<Rightarrow> client" where
  "loopback_on_open c sid d b =
     (let sock = sockets c ! sid
      in c\<lparr>sockets := (sockets c)[sid := sock\<lparr>ws_sent := ws_sent sock @ (d, b) # ws_once_open sock,
                                               ws_once_open := []\<rparr>]\<rparr>)"

definition loopback_on_error :: "client \<Rightarrow> string \<Rightarrow> js_error + client" where
  "loopback_on_error c err = emit_error c err"

definition loopback_on_message ::
  "client \<Rightarrow> string option \<Rightarrow> payload \<Rightarrow> bool option \<Rightarrow> js_error + client"
where
  "loopback_on_message c q data_in binary_in =
     muxer_write c
       \<lparr>frame_type = ''datachannel'', frame_data = data_in,
        frame_flags = \<lparr>binary = binary_in, quid = q\<rparr>\<rparr>"

definition loopback_on_close ::
  "client \<Rightarrow> string option \<Rightarrow> int \<Rightarrow> string \<Rightarrow> js_error + client"
where
  "loopback_on_close c q code message =
     muxer_write (c\<lparr>channels := AList.delete (key_of q) (channels c)\<rparr>)
       \<lparr>frame_type = ''datachannel'', frame_data = Json_code_message code message,
        frame_flags = \<lparr>binary = Some False, quid = q\<rparr>\<rparr>"

subsection \<open>The client as a machine\<close>

text \<open>
  What reaches the client: calls of \<open>open\<close>, \<open>close\<close> and
  \<^verbatim>\<open>on('error', listener)\<close> by its owner, frames and
  errors from its demuxer, errors from its muxer, the events of its sockets (each with
  the socket it is emitted on) and the answers to its POSTs.
\<close>

datatype client_input =
    Call_open
  | Call_close
  | Call_on_error
  | Demux_data frame
  | Demux_error string
  | Mux_error string
  | Ws_open nat
  | Ws_error nat string
  | Ws_close nat int string
  | Ws_message nat payload "bool option"
  | Http_response "string option" string

text \<open>
  Before a socket emits \<^verbatim>\<open>open\<close> or \<^verbatim>\<open>close\<close> the library sets its \<^verbatim>\<open>readyState\<close>.
\<close>

definition set_readyState :: "client \<Rightarrow> nat \<Rightarrow> nat \<Rightarrow> client" where
  "set_readyState c sid st =
     c\<lparr>sockets := (sockets c)[sid := (sockets c ! sid)\<lparr>ws_readyState := st\<rparr>]\<rparr>"

text \<open>
  One step. An event of a socket that was never made, or of a demuxer or muxer whose
  listeners are gone, runs no listener. A message on the tunnel socket is written to
  the demuxer, whose frames come back as \<open>Demux_data\<close>.
\<close>

fun client_step ::
  "(string \<Rightarrow> js_error + payload) \<Rightarrow> client \<Rightarrow> client_input \<Rightarrow> js_error + client"
where
  "client_step fb c Call_open = Inr (client_open c)"
| "client_step fb c Call_close = map_sum id snd (client_close c)"
| "client_step fb c Call_on_error = Inr (c\<lparr>error_listener := True\<rparr>)"
| "client_step fb c (Demux_data object) =
     (case demuxer c of
        Some d \<Rightarrow> if demux_listeners d then demuxer_on_data c object else Inr c
      | None \<Rightarrow> Inr c)"
| "client_step fb c (Demux_error err) =
     (case demuxer c of
        Some d \<Rightarrow> if demux_listeners d then emit_error c err
                  else Inr c
      | None \<Rightarrow> Inr c)"
| "client_step fb c (Mux_error err) =
     (case muxer c of
        Some m \<Rightarrow> if mux_listeners m then emit_error c err
                  else Inr c
      | None \<Rightarrow> Inr c)"
| "client_step fb c (Ws_open sid) =
     (if sid < length (sockets c) then
        (case ws_listeners (sockets c ! sid) of
           Tunnel_listeners \<Rightarrow> Inr (tunnel_on_open (set_readyState c sid WS_OPEN) sid)
         | Loopback_listeners q d b \<Rightarrow>
             Inr (loopback_on_open (set_readyState c sid WS_OPEN) sid d b))
      else Inr c)"
| "client_step fb c (Ws_error sid err) =
     (if sid < length (sockets c) then
        (case ws_listeners (sockets c ! sid) of
           Tunnel_listeners \<Rightarrow> tunnel_on_error c err
         | Loopback_listeners q d b \<Rightarrow> loopback_on_error c err)
      else Inr c)"
| "client_step fb c (Ws_close sid code message) =
     (if sid < length (sockets c) then
        (case ws_listeners (sockets c ! sid) of
           Tunnel_listeners \<Rightarrow> tunnel_on_close (set_readyState c sid WS_CLOSED)
         | Loopback_listeners q d b \<Rightarrow>
             loopback_on_close (set_readyState c sid WS_CLOSED) q code message)
      else Inr c)"
| "client_step fb c (Ws_message sid data_in binary_in) =
     (if sid < length (sockets c) then
        (case ws_listeners (sockets c ! sid) of
           Tunnel_listeners \<Rightarrow>
             (case demuxer c of
                None \<Rightarrow> Inl (TypeError ''write of null'')
              | Some dm \<Rightarrow> Inr c)
         | Loopback_listeners q d b \<Rightarrow> loopback_on_message c q data_in binary_in)
      else Inr c)"
| "client_step fb c (Http_response err body) = forwardResponse fb c err body"

fun client_run ::
  "(string \<Rightarrow> js_error + payload) \<Rightarrow> client \<Rightarrow> client_input list \<Rightarrow> js_error + client"
where
  "client_run fb c [] = Inr c"
| "client_run fb c (e # es) =
     (case client_step fb c e of Inl ex \<Rightarrow> Inl ex | Inr c' \<Rightarrow> client_run fb c' es)"

subsection \<open>Clients used as examples\<close>

text \<open>A \<^verbatim>\<open>kad.Message.fromBuffer\<close> that accepts every body.\<close>

definition accept_body :: "string \<Rightarrow> js_error + payload" where
  "accept_body body = Inr (Message body)"

text \<open>The client the constructor builds from two strings.\<close>

definition example_client :: client where
  "example_client =
     \<lparr>tunuri = JString ''ws://10.0.0.1:4001/tun?token=T'', target = JString ''http://127.0.0.1:4000'',
      tunnel = None, muxer = None, demuxer = None, channels = [], readyState = CLIENT_CLOSED,
      sockets = [], emitted = [], written = [], requests = [], error_listener = False\<rparr>"


text \<open>A data-channel frame for the quid \<open>q\<close>, and the frame the close listener of
  a loopback socket writes.\<close>

definition datachannel_frame :: "string \<Rightarrow> bool \<Rightarrow> payload \<Rightarrow> frame" where
  "datachannel_frame q b d =
     \<lparr>frame_type = ''datachannel'', frame_data = d,
      frame_flags = \<lparr>binary = Some b, quid = Some q\<rparr>\<rparr>"

definition terminal_frame :: "string option \<Rightarrow> int \<Rightarrow> string \<Rightarrow> frame" where
  "terminal_frame q code message =
     \<lparr>frame_type = ''datachannel'', frame_data = Json_code_message code message,
      frame_flags = \<lparr>binary = Some False, quid = q\<rparr>\<rparr>"

text \<open>
  One data-channel session: the client opens, the tunnel connects, a frame for the quid
  \<open>Q\<close> arrives with the bytes \<open>[1]\<close>, the loopback socket opens and answers with the
  bytes \<open>[2]\<close>. \<open>session_client\<close> is the client after these inputs, and
  \<open>closed_session_client\<close> the client after the loopback socket has then closed with
  code 1000 and message \<open>bye\<close>.
\<close>

definition session_inputs :: "client_input list" where
  "session_inputs =
     [Call_open, Ws_open 0,
      Demux_data (datachannel_frame ''Q'' True (Buffer [1])),
      Ws_open 1,
      Ws_message 1 (Buffer [2]) (Some True)]"

definition session_client :: client where
  "session_client =
     example_client
       \<lparr>tunnel := Some 0,
        muxer := Some \<lparr>mux_listeners = True\<rparr>,
        demuxer := Some \<lparr>demux_listeners = True\<rparr>,
        channels := [(''Q'', 1)],
        sockets :=
          [\<lparr>ws_address = Tunnel_uri (tunuri example_client), ws_readyState = 1,
            ws_listeners = Tunnel_listeners, ws_once_open = [], ws_sent = [],
            ws_close_calls = 0\<rparr>,
           \<lparr>ws_address = Loopback_of (target example_client), ws_readyState = 1,
            ws_listeners = Loopback_listeners (Some ''Q'') (Buffer [1]) (Some True),
            ws_once_open = [], ws_sent = [(Buffer [1], Some True)], ws_close_calls = 0\<rparr>],
        emitted := [Event_open],
        written := [datachannel_frame ''Q'' True (Buffer [2])]\<rparr>"

definition closed_session_client :: client where
  "closed_session_client =
     session_client
       \<lparr>channels := [],
        sockets := (sockets session_client)[1 := (sockets session_client ! 1)\<lparr>ws_readyState := 3\<rparr>],
        written := [datachannel_frame ''Q'' True (Buffer [2]), terminal_frame (Some ''Q'') 1000 ''bye'']\<rparr>"

text \<open>Traffic that does not concern the quid \<open>Q\<close>: a session for the quid \<open>R\<close> and
  an RPC call with its answer.\<close>

definition other_traffic :: "client_input list" where
  "other_traffic =
     [Demux_data (datachannel_frame ''R'' False (Text ''ping'')),
      Ws_open 2,
      Ws_message 2 (Text ''pong'') None,
      Demux_data \<lparr>frame_type = ''rpc'', frame_data = Message ''{}'',
                  frame_flags = \<lparr>binary = None, quid = None\<rparr>\<rparr>,
      Http_response None ''{}'']"

subsection \<open>Notions the statements about the client use\<close>

text \<open>A client is wired when a tunnel comes with a muxer and a demuxer.\<close>

definition wired :: "client \<Rightarrow> bool" where
  "wired c \<longleftrightarrow> (tunnel c = None \<or> (muxer c \<noteq> None \<and> demuxer c \<noteq> None))"

text \<open>The data-channel frames for the quid \<open>q\<close> among the frames written.\<close>

definition frames_for :: "string option \<Rightarrow> frame list \<Rightarrow> frame list" where
  "frames_for q fs = filter (\<lambda>f. frame_type f = ''datachannel'' \<and> quid (frame_flags f) = q) fs"

text \<open>Whether listeners are those of a loopback socket for the quid \<open>q\<close>.\<close>

fun bound_to :: "string option \<Rightarrow> listeners \<Rightarrow> bool" where
  "bound_to q Tunnel_listeners = False"
| "bound_to q (Loopback_listeners q' d b) = (q' = q)"

text \<open>The socket an input is an event of, and whether an input is an inbound
  data-channel frame for the quid \<open>q\<close>.\<close>

fun input_socket :: "client_input \<Rightarrow> nat option" where
  "input_socket (Ws_open sid) = Some sid"
| "input_socket (Ws_error sid err) = Some sid"
| "input_socket (Ws_close sid code message) = Some sid"
| "input_socket (Ws_message sid d b) = Some sid"
| "input_socket e = None"

fun inbound_for :: "string option \<Rightarrow> client_input \<Rightarrow> bool" where
  "inbound_for q (Demux_data f) = (frame_type f = ''datachannel'' \<and> quid (frame_flags f) = q)"
| "inbound_for q e = False"

text \<open>
  An input is quiet for \<open>q\<close>, seen from the client \<open>c0\<close>, when it is neither an
  inbound data-channel frame for \<open>q\<close> nor an event of a socket of \<open>c0\<close> whose
  listeners are bound to \<open>q\<close>.
\<close>

definition quiet_input :: "client \<Rightarrow> string option \<Rightarrow> client_input \<Rightarrow> bool" where
  "quiet_input c0 q e =
     (\<not> inbound_for q e \<and>
      (case input_socket e of
         None \<Rightarrow> True
       | Some sid \<Rightarrow> \<not> (sid < length (sockets c0) \<and> bound_to q (ws_listeners (sockets c0 ! sid)))))"

text \<open>The listeners of the sockets made so far, in the order the sockets were made.\<close>

definition wiring :: "client \<Rightarrow> listeners list" where
  "wiring c = map ws_listeners (sockets c)"

section \<open>Facts about the array primitives\<close>

lemma indexOf_ge: "- 1 \<le> indexOf xs x"
  by (induction xs) (auto simp: Let_def)

lemma indexOf_notin: "indexOf xs x = - 1 \<longleftrightarrow> x \<notin> set xs"
proof (induction xs)
  case Nil
  then show ?case by simp
next
  case (Cons y ys)
  from indexOf_ge [of ys x] have "indexOf ys x + 1 \<noteq> - 1" by linarith
  with Cons show ?case by (auto simp: Let_def)
qed

lemma indexOf_lt: "indexOf xs x < int (length xs)"
  by (induction xs) (auto simp: Let_def)

lemma splice1_indexOf: "x \<in> set xs \<Longrightarrow> splice1 xs (indexOf xs x) = remove1 x xs"
proof (induction xs)
  case Nil
  then show ?case by simp
next
  case (Cons y ys)
  show ?case
  proof (cases "y = x")
    case True
    then show ?thesis by (simp add: splice1_def)
  next
    case False
    with Cons.prems have mem: "x \<in> set ys" by simp
    then have ne: "indexOf ys x \<noteq> - 1" by (simp add: indexOf_notin)
    with indexOf_ge [of ys x] have nn: "0 \<le> indexOf ys x" by linarith
    from Cons.IH [OF mem] nn indexOf_lt [of ys x] False ne show ?thesis
      by (simp add: splice1_def Let_def nat_add_distrib min_def split: if_splits)
  qed
qed

lemma indexOf_map_inj: "inj f \<Longrightarrow> indexOf (map f xs) (f x) = indexOf xs x"
  by (induction xs) (auto simp: Let_def dest: injD)

lemma inj_QString: "inj QString"
  by (simp add: inj_def)

section \<open>The arithmetic of the random index\<close>

declare bit_length.simps [simp del]

lemma bit_length_less: "n < 2 ^ bit_length n"
proof (induction n rule: bit_length.induct)
  case (1 n)
  show ?case
  proof (cases "n = 0")
    case True
    then show ?thesis by simp
  next
    case False
    with 1 have "n div 2 < 2 ^ bit_length (n div 2)" by simp
    then have "n < 2 * 2 ^ bit_length (n div 2)" by linarith
    with False show ?thesis by (subst bit_length.simps) simp
  qed
qed

lemma bit_length_ge: "0 < n \<Longrightarrow> 2 ^ (bit_length n - 1) \<le> n"
proof (induction n rule: bit_length.induct)
  case (1 n)
  from "1.prems" have nz: "n \<noteq> 0" by simp
  have bl: "bit_length n = Suc (bit_length (n div 2))"
    using nz by (subst bit_length.simps) simp
  show ?case
  proof (cases "n div 2 = 0")
    case True
    then have "bit_length (n div 2) = 0" by (subst bit_length.simps) simp
    with bl "1.prems" show ?thesis by simp
  next
    case False
    then have pos: "0 < n div 2" by simp
    from "1.IH" [OF nz pos] have ih: "2 ^ (bit_length (n div 2) - 1) \<le> n div 2" .
    from False have "bit_length (n div 2) = Suc (bit_length ((n div 2) div 2))"
      by (subst bit_length.simps) simp
    then obtain k where k: "bit_length (n div 2) = Suc k" by blast
    from ih k have "2 ^ k \<le> n div 2" by simp
    then have "2 * 2 ^ k \<le> n" by linarith
    with bl k show ?thesis by simp
  qed
qed

lemma bit_length_le: "n < 2 ^ k \<Longrightarrow> bit_length n \<le> k"
proof (rule ccontr)
  assume lt: "n < 2 ^ k" and "\<not> bit_length n \<le> k"
  then have k: "k \<le> bit_length n - 1" and pos: "0 < bit_length n" by simp_all
  from pos have "0 < n" by (subst (asm) bit_length.simps) (simp split: if_splits)
  from bit_length_ge [OF this] have "2 ^ (bit_length n - 1) \<le> n" .
  moreover from k have "(2::nat) ^ k \<le> 2 ^ (bit_length n - 1)" by (rule power_increasing) simp
  ultimately show False using lt by linarith
qed


lemma pow2_less_D: "(2::nat) ^ a < 2 ^ b \<Longrightarrow> a < b"
  by (simp add: power_strict_increasing_iff)

lemma bit_length_eq: "2 ^ k \<le> n \<Longrightarrow> n < 2 ^ Suc k \<Longrightarrow> bit_length n = Suc k"
proof -
  assume lo: "2 ^ k \<le> n" and hi: "n < 2 ^ Suc k"
  from hi have le: "bit_length n \<le> Suc k" by (rule bit_length_le)
  have "n < 2 ^ bit_length n" by (rule bit_length_less)
  with lo have "(2::nat) ^ k < 2 ^ bit_length n" by linarith
  then have "k < bit_length n" by (simp add: power_strict_increasing_iff)
  with le show ?thesis by simp
qed

lemma random_index_near_four_sevenths: "random_index random_near_four_sevenths 7 = 4"
proof -
  have "bit_length 18014398509481983 = Suc 53"
    by (rule bit_length_eq) simp_all
  then show ?thesis
    by (simp add: random_index_def random_near_four_sevenths_def round_to_double_def Let_def)
qed

lemma random_value_near_four_sevenths: "random_value random_near_four_sevenths < 4 / 7"
  by (simp add: random_value_def random_near_four_sevenths_def)

text \<open>Rounding moves a number by at most half a unit in the last place.\<close>

lemma round_to_double_small: "M < 2 ^ 53 \<Longrightarrow> round_to_double M = M"
  by (simp add: round_to_double_def)

lemma round_to_double_upper:
  assumes "2 ^ 53 \<le> M"
  shows "round_to_double M \<le> M + 2 ^ (bit_length M - 54)"
proof -
  let ?s = "bit_length M - 53"
  from assms have pos: "0 < M" by simp
  have "M < 2 ^ bit_length M" by (rule bit_length_less)
  with assms have "(2::nat) ^ 53 < 2 ^ bit_length M" by linarith
  then have bl: "53 < bit_length M" by (rule pow2_less_D)
  then have s1: "?s - 1 = bit_length M - 54" and spos: "0 < ?s" by simp_all
  from spos have two: "(2::nat) ^ ?s = 2 * 2 ^ (?s - 1)"
    by (cases ?s) simp_all
  have split: "M = (M div 2 ^ ?s) * 2 ^ ?s + M mod 2 ^ ?s"
    by (rule div_mult_mod_eq [symmetric])
  show ?thesis
  proof (cases "2 ^ (?s - 1) < M mod 2 ^ ?s \<or> (M mod 2 ^ ?s = 2 ^ (?s - 1) \<and> odd (M div 2 ^ ?s))")
    case True
    then have half: "2 ^ (?s - 1) \<le> M mod 2 ^ ?s" by auto
    from True assms have "round_to_double M = (M div 2 ^ ?s + 1) * 2 ^ ?s"
      by (simp add: round_to_double_def Let_def)
    also have "\<dots> = (M div 2 ^ ?s) * 2 ^ ?s + 2 ^ ?s" by (simp add: algebra_simps)
    also have "\<dots> = (M div 2 ^ ?s) * 2 ^ ?s + 2 ^ (?s - 1) + 2 ^ (?s - 1)"
      using two by simp
    also have "\<dots> \<le> (M div 2 ^ ?s) * 2 ^ ?s + M mod 2 ^ ?s + 2 ^ (?s - 1)"
      using half by simp
    also have "\<dots> = M + 2 ^ (?s - 1)" using split by simp
    finally show ?thesis by (simp only: s1)
  next
    case False
    with assms have "round_to_double M = (M div 2 ^ ?s) * 2 ^ ?s"
      by (auto simp: round_to_double_def Let_def)
    also have "\<dots> \<le> M" by simp
    finally show ?thesis by simp
  qed
qed

lemma round_to_double_lower:
  "(M div 2 ^ (bit_length M - 53)) * 2 ^ (bit_length M - 53) \<le> round_to_double M"
proof (cases "M < 2 ^ 53")
  case True
  then have "round_to_double M = M" by (rule round_to_double_small)
  then show ?thesis by simp
next
  case False
  then show ?thesis
    by (simp add: round_to_double_def Let_def)
qed

text \<open>The relative form of the upper bound: the error is at most \<open>M / 2 ^ 53\<close>.\<close>

lemma ulp_bound:
  assumes "2 ^ 53 \<le> M"
  shows "2 ^ 53 * 2 ^ (bit_length M - 54) \<le> M"
proof -
  from assms have pos: "0 < M" by simp
  have "M < 2 ^ bit_length M" by (rule bit_length_less)
  with assms have "(2::nat) ^ 53 < 2 ^ bit_length M" by linarith
  then have bl: "53 < bit_length M" by (rule pow2_less_D)
  then have e: "53 + (bit_length M - 54) = bit_length M - 1" by simp
  have "(2::nat) ^ 53 * 2 ^ (bit_length M - 54) = 2 ^ (53 + (bit_length M - 54))"
    by (rule power_add [symmetric])
  also have "\<dots> = 2 ^ (bit_length M - 1)" by (simp only: e)
  also have "\<dots> \<le> M" by (rule bit_length_ge [OF pos])
  finally show ?thesis .
qed

lemma round_to_double_relative: "2 ^ 53 * round_to_double M \<le> 2 ^ 53 * M + M"
proof (cases "M < 2 ^ 53")
  case True
  then have "round_to_double M = M" by (rule round_to_double_small)
  then show ?thesis by simp
next
  case False
  then have big: "2 ^ 53 \<le> M" by simp
  from round_to_double_upper [OF big]
  have "2 ^ 53 * round_to_double M \<le> 2 ^ 53 * (M + 2 ^ (bit_length M - 54))"
    by (rule mult_le_mono2)
  also have "\<dots> = 2 ^ 53 * M + 2 ^ 53 * 2 ^ (bit_length M - 54)"
    by (rule add_mult_distrib2)
  also from ulp_bound [OF big] have "\<dots> \<le> 2 ^ 53 * M + M" by (rule add_left_mono)
  finally show ?thesis .
qed

lemma mod_pow2_mono:
  assumes "s \<le> e"
  shows "M mod 2 ^ s \<le> M mod (2::nat) ^ e"
proof -
  from assms have "(2::nat) ^ e = 2 ^ s * 2 ^ (e - s)"
    by (simp add: power_add [symmetric])
  then have "M mod 2 ^ e = 2 ^ s * (M div 2 ^ s mod 2 ^ (e - s)) + M mod 2 ^ s"
    by (simp only: mod_mult2_eq)
  then show ?thesis by simp
qed

lemma floor_le_round:
  assumes r: "m < 2 ^ e" and n: "n < 2 ^ 53"
  shows "(m * n) div 2 ^ e * 2 ^ e \<le> round_to_double (m * n)"
proof (cases "m * n < 2 ^ 53")
  case True
  then have "round_to_double (m * n) = m * n" by (rule round_to_double_small)
  then show ?thesis by simp
next
  case False
  let ?M = "m * n"
  let ?s = "bit_length ?M - 53"
  from False have "0 < n" by (cases n) simp_all
  with r have "m * n < 2 ^ e * n" by simp
  also from n have "2 ^ e * n < 2 ^ e * 2 ^ 53" by simp
  also have "\<dots> = (2::nat) ^ (e + 53)" by (rule power_add [symmetric])
  finally have "bit_length ?M \<le> e + 53" by (rule bit_length_le)
  then have se: "?s \<le> e" by simp
  have "?M div 2 ^ e * 2 ^ e + ?M mod 2 ^ e = ?M div 2 ^ ?s * 2 ^ ?s + ?M mod 2 ^ ?s"
    by (simp only: div_mult_mod_eq)
  with mod_pow2_mono [OF se, of ?M] have "?M div 2 ^ e * 2 ^ e \<le> ?M div 2 ^ ?s * 2 ^ ?s"
    by linarith
  also have "\<dots> \<le> round_to_double ?M" by (rule round_to_double_lower)
  finally show ?thesis .
qed

lemma random_index_less:
  assumes d: "is_unit_double r" and n: "0 < n"
  shows "random_index r n < n"
proof -
  let ?m = "rnd_numerator r"
  let ?e = "rnd_exponent r"
  let ?M = "?m * n"
  from d have m: "?m < 2 ^ 53" and r: "?m < 2 ^ ?e" by (simp_all add: is_unit_double_def)
  have bound: "round_to_double ?M < n * 2 ^ ?e"
  proof (cases "?M < 2 ^ 53")
    case True
    then have "round_to_double ?M = ?M" by (rule round_to_double_small)
    also from r n have "?M < 2 ^ ?e * n" by simp
    finally show ?thesis by (simp add: mult.commute)
  next
    case False
    then have big: "2 ^ 53 \<le> ?M" by simp
    from ulp_bound [OF big] have "2 ^ 53 * 2 ^ (bit_length ?M - 54) \<le> ?m * n" .
    also from m n have "?m * n < 2 ^ 53 * n" by simp
    finally have ulp: "2 ^ (bit_length ?M - 54) < n" by simp
    from r have "Suc ?m \<le> 2 ^ ?e" by simp
    then have "Suc ?m * n \<le> 2 ^ ?e * n" by (rule mult_le_mono1)
    then have gap: "?M + n \<le> n * 2 ^ ?e" by (simp add: mult.commute)
    from round_to_double_upper [OF big] ulp gap show ?thesis by linarith
  qed
  then show ?thesis
    by (simp add: random_index_def less_mult_imp_div_less)
qed

lemma random_index_floor:
  assumes d: "is_unit_double r" and n: "n < 2 ^ 53"
  shows "(rnd_numerator r * n) div 2 ^ rnd_exponent r \<le> random_index r n"
proof -
  from d have r: "rnd_numerator r < 2 ^ rnd_exponent r" by (simp add: is_unit_double_def)
  from floor_le_round [OF r n]
  have "((rnd_numerator r * n) div 2 ^ rnd_exponent r * 2 ^ rnd_exponent r) div 2 ^ rnd_exponent r
          \<le> round_to_double (rnd_numerator r * n) div 2 ^ rnd_exponent r"
    by (rule div_le_mono)
  then show ?thesis by (simp add: random_index_def)
qed

text \<open>
  The index in terms of the exact product \<open>r * n\<close>: it is the floor of the product, or
  the next integer when the product is within a relative \<open>2 ^ -53\<close> below it.
\<close>

lemma random_index_bounds:
  assumes d: "is_unit_double r" and n: "n < 2 ^ 53"
  shows "real (random_index r n) \<le> random_value r * real n * (1 + 1 / 2 ^ 53)"
    and "random_value r * real n < real (random_index r n) + 1"
proof -
  let ?m = "rnd_numerator r"
  let ?e = "rnd_exponent r"
  let ?M = "?m * n"
  let ?i = "random_index r n"
  have "?i * 2 ^ ?e \<le> round_to_double ?M"
    by (simp add: random_index_def)
  then have "2 ^ 53 * (?i * 2 ^ ?e) \<le> 2 ^ 53 * round_to_double ?M" by (rule mult_le_mono2)
  also have "\<dots> \<le> 2 ^ 53 * ?M + ?M" by (rule round_to_double_relative)
  finally have "real (2 ^ 53 * (?i * 2 ^ ?e)) \<le> real (2 ^ 53 * ?M + ?M)"
    by (simp only: of_nat_le_iff)
  then have "2 ^ 53 * (real ?i * 2 ^ ?e) \<le> 2 ^ 53 * (real ?m * real n) + real ?m * real n"
    by simp
  then have "real ?i * 2 ^ ?e \<le> real ?m * real n * (1 + 1 / 2 ^ 53)"
    by (simp add: field_simps)
  then have "real ?i \<le> real ?m * real n * (1 + 1 / 2 ^ 53) / 2 ^ ?e"
    by (simp add: pos_le_divide_eq)
  then show "real ?i \<le> random_value r * real n * (1 + 1 / 2 ^ 53)"
    by (simp add: random_value_def field_simps)
next
  let ?m = "rnd_numerator r"
  let ?e = "rnd_exponent r"
  let ?M = "?m * n"
  let ?i = "random_index r n"
  have "?M < (?M div 2 ^ ?e + 1) * 2 ^ ?e"
    using dividend_less_div_times [of "2 ^ ?e" ?M] by (simp add: algebra_simps)
  also from random_index_floor [OF d n] have "\<dots> \<le> (?i + 1) * 2 ^ ?e"
    by (simp add: mult_le_mono1)
  finally have "real ?M < real ((?i + 1) * 2 ^ ?e)" by (simp only: of_nat_less_iff)
  then have "real ?m * real n < (real ?i + 1) * 2 ^ ?e" by (simp add: algebra_simps)
  then have "real ?m * real n / 2 ^ ?e < real ?i + 1"
    by (simp add: pos_divide_less_eq)
  then show "random_value r * real n < real ?i + 1"
    by (simp add: random_value_def field_simps)
qed

text \<open>So a random number whose product with \<open>n\<close> is at least \<open>k\<close>, and below
  \<open>k + 1\<close> by more than the rounding, gives the index \<open>k\<close>.\<close>

lemma random_index_eq:
  assumes d: "is_unit_double r" and n: "n < 2 ^ 53"
    and lo: "real k \<le> random_value r * real n"
    and hi: "random_value r * real n * (1 + 1 / 2 ^ 53) < real k + 1"
  shows "random_index r n = k"
proof -
  from random_index_bounds(1) [OF d n] hi have "real (random_index r n) < real k + 1"
    by linarith
  then have "random_index r n < k + 1" by linarith
  moreover from random_index_bounds(2) [OF d n] lo have "real k < real (random_index r n) + 1"
    by linarith
  then have "k < random_index r n + 1" by linarith
  ultimately show ?thesis by simp
qed

section \<open>Port leasing computes the free subset\<close>

lemma push_range_eq: "push_range s e a = a @ [s..e]"
proof (induction s e a rule: push_range.induct)
  case (1 s e a)
  show ?case
  proof (cases "s \<le> e")
    case True
    with 1 show ?thesis by (simp add: upto_rec1)
  next
    case False
    then show ?thesis by simp
  qed
qed

lemma remove_used_eq:
  "distinct av \<Longrightarrow> remove_used used av = filter (\<lambda>p. p \<notin> set used) av"
proof (induction used arbitrary: av)
  case Nil
  then show ?case by simp
next
  case (Cons p ps)
  show ?case
  proof (cases "p \<in> set av")
    case True
    then have "remove_used (p # ps) av = remove_used ps (remove1 p av)"
      by (simp add: indexOf_notin splice1_indexOf)
    also have "\<dots> = filter (\<lambda>q. q \<notin> set ps) (remove1 p av)"
      using Cons.IH [of "remove1 p av"] Cons.prems by simp
    also have "\<dots> = filter (\<lambda>q. q \<notin> set (p # ps)) av"
    proof -
      have "(\<lambda>q. q \<notin> set (p # ps)) = (\<lambda>q. p \<noteq> q \<and> q \<notin> set ps)" by auto
      with Cons.prems show ?thesis
        by (simp add: distinct_remove1_removeAll removeAll_filter_not_eq)
    qed
    finally show ?thesis .
  next
    case False
    then have "remove_used (p # ps) av = remove_used ps av"
      by (simp add: indexOf_notin)
    also have "\<dots> = filter (\<lambda>q. q \<notin> set ps) av"
      using Cons.IH [OF Cons.prems] .
    also have "\<dots> = filter (\<lambda>q. q \<notin> set (p # ps)) av"
      using False by (intro filter_cong) auto
    finally show ?thesis .
  qed
qed

lemma distinct_upto_int: "distinct [lo..hi::int]"
  by simp

lemma getAvailablePort_eq:
  assumes mn: "range_min (gatewayPortRange (options s)) = Some lo" and nz: "lo \<noteq> 0"
  shows "getAvailablePort s r =
           array_get (free_ports s) (int (random_index r (length (free_ports s))))"
proof (cases "range_max (gatewayPortRange (options s))")
  case None
  have "remove_used (usedPorts s) [] = []"
    by (simp add: remove_used_eq)
  with None mn nz show ?thesis
    unfolding getAvailablePort_def free_ports_def Let_def by simp
next
  case (Some hi)
  have "remove_used (usedPorts s) (push_range lo hi []) =
          filter (\<lambda>p. p \<notin> set (usedPorts s)) [lo..hi]"
    by (simp only: push_range_eq append_Nil remove_used_eq [OF distinct_upto_int])
  with mn nz Some show ?thesis
    unfolding getAvailablePort_def free_ports_def Let_def by simp
qed

section \<open>Admission tokens\<close>

lemma verifyClient_reject:
  "extractTokenFromRequest req \<notin> QString ` set (authorized s) \<Longrightarrow>
     verifyClient s req = (Reject 401, s)"
  by (simp add: verifyClient_def Let_def indexOf_notin)

lemma verifyClient_accept:
  assumes "extractTokenFromRequest req = QString t" "t \<in> set (authorized s)"
  shows "verifyClient s req = (Accept, s\<lparr>authorized := remove1 t (authorized s)\<rparr>)"
proof -
  have i: "indexOf (map QString (authorized s)) (QString t) = indexOf (authorized s) t"
    by (rule indexOf_map_inj [OF inj_QString])
  from assms(2) have "indexOf (authorized s) t \<noteq> - 1" by (simp add: indexOf_notin)
  with assms i show ?thesis
    by (simp add: verifyClient_def Let_def splice1_indexOf)
qed

text \<open>
  The authorized list holds each token once as long as every gateway opens with a
  token that is not already authorized: the tokens are the gateways' random entrance
  tokens.
\<close>

lemma gateway_on_open_distinct:
  "distinct (authorized s) \<Longrightarrow> token \<notin> set (authorized s) \<Longrightarrow>
     distinct (authorized (gateway_on_open s g token port))"
  by (simp add: gateway_on_open_def Let_def)

lemma verifyClient_distinct:
  "distinct (authorized s) \<Longrightarrow> distinct (authorized (snd (verifyClient s req)))"
proof (cases "extractTokenFromRequest req \<in> QString ` set (authorized s)")
  case True
  then obtain t where "extractTokenFromRequest req = QString t" "t \<in> set (authorized s)"
    by auto
  then show "distinct (authorized s) \<Longrightarrow> ?thesis"
    by (simp add: verifyClient_accept)
next
  case False
  then show "distinct (authorized s) \<Longrightarrow> ?thesis"
    by (simp add: verifyClient_reject)
qed

lemma verifyClient_authorized:
  "authorized (snd (verifyClient s req)) = authorized s
   \<or> (\<exists>t. authorized (snd (verifyClient s req)) = remove1 t (authorized s))"
proof (cases "extractTokenFromRequest req \<in> QString ` set (authorized s)")
  case True
  then obtain t where "extractTokenFromRequest req = QString t" "t \<in> set (authorized s)"
    by auto
  then have "authorized (snd (verifyClient s req)) = remove1 t (authorized s)"
    by (simp add: verifyClient_accept)
  then show ?thesis by blast
next
  case False
  then show ?thesis by (simp add: verifyClient_reject)
qed

lemma server_step_authorized:
  "authorized (server_step s e) = authorized s
   \<or> (\<exists>t. authorized (server_step s e) = remove1 t (authorized s))
   \<or> (\<exists>g t p. e = GatewayOpen g t p \<and> authorized (server_step s e) = authorized s @ [t])"
proof (cases e)
  case (CreateGateway token r)
  then show ?thesis by (simp add: createGateway_def)
next
  case (GatewayOpen g token port)
  then show ?thesis by (simp add: gateway_on_open_def Let_def)
next
  case (GatewayClose g)
  then show ?thesis by (simp add: gateway_on_close_def Let_def)
next
  case (GatewayError g err)
  then show ?thesis by (simp add: gateway_on_error_def)
next
  case (Upgrade req)
  with verifyClient_authorized [of s req] show ?thesis
    by (auto split: prod.splits)
qed

text \<open>
  From any server whose authorized tokens are pairwise different, inputs whose
  \<^verbatim>\<open>open\<close> events carry tokens that are new and pairwise different lead to such a
  server again; so does every run of a new server.
\<close>

lemma server_run_distinct:
  "distinct (authorized s) \<Longrightarrow> distinct (opened_tokens evs) \<Longrightarrow>
   set (authorized s) \<inter> set (opened_tokens evs) = {} \<Longrightarrow>
     distinct (authorized (server_run s evs))"
proof (induction evs arbitrary: s)
  case Nil
  then show ?case by (simp add: server_run_def)
next
  case (Cons e evs)
  have run: "server_run s (e # evs) = server_run (server_step s e) evs"
    by (simp add: server_run_def)
  from Cons.prems have d: "distinct (opened_tokens evs)"
    by (cases e) simp_all
  from Cons.prems have dis: "set (authorized s) \<inter> set (opened_tokens evs) = {}"
    by (cases e) auto
  from server_step_authorized [of s e]
  consider (same) "authorized (server_step s e) = authorized s"
    | (less) t where "authorized (server_step s e) = remove1 t (authorized s)"
    | (more) g t p where "e = GatewayOpen g t p"
        "authorized (server_step s e) = authorized s @ [t]"
    by blast
  then have "distinct (authorized (server_step s e))
           \<and> set (authorized (server_step s e)) \<inter> set (opened_tokens evs) = {}"
  proof cases
    case same
    with Cons.prems(1) dis show ?thesis by simp
  next
    case less
    with Cons.prems(1) dis show ?thesis
      using set_remove1_subset [of t "authorized s"] by auto
  next
    case more
    with Cons.prems show ?thesis by auto
  qed
  with Cons.IH [of "server_step s e"] d run show ?case by simp
qed

lemma new_server_distinct:
  "distinct (opened_tokens evs) \<Longrightarrow> distinct (authorized (server_run (TunnelServer u) evs))"
  by (rule server_run_distinct) (simp_all add: TunnelServer_def)

text \<open>
  Claim C1. Admission tokens are one-shot. An upgrade whose token is not in the
  authorized list (never authorized, already consumed, missing from the query or
  repeated in it) is rejected with status 401 and changes nothing. An upgrade whose
  token is authorized is accepted, the token is then no longer authorized, and a
  second upgrade with the same token is rejected with 401. The authorized list holds
  each token once, as it does in every run of a server whose gateways open with
  pairwise different tokens (\<open>new_server_distinct\<close>).
\<close>

theorem verifyClient_one_shot:
  assumes "distinct (authorized s)"
  shows "(extractTokenFromRequest req \<notin> QString ` set (authorized s) \<longrightarrow>
            verifyClient s req = (Reject 401, s))
       \<and> (extractTokenFromRequest req \<in> QString ` set (authorized s) \<longrightarrow>
            fst (verifyClient s req) = Accept
          \<and> extractTokenFromRequest req
               \<notin> QString ` set (authorized (snd (verifyClient s req)))
          \<and> verifyClient (snd (verifyClient s req)) req
               = (Reject 401, snd (verifyClient s req)))"
proof (intro conjI impI)
  assume "extractTokenFromRequest req \<notin> QString ` set (authorized s)"
  then show "verifyClient s req = (Reject 401, s)" by (rule verifyClient_reject)
next
  assume "extractTokenFromRequest req \<in> QString ` set (authorized s)"
  then obtain t where t: "extractTokenFromRequest req = QString t" "t \<in> set (authorized s)"
    by auto
  note acc = verifyClient_accept [OF t]
  show "fst (verifyClient s req) = Accept" by (simp add: acc)
  from assms show gone:
    "extractTokenFromRequest req \<notin> QString ` set (authorized (snd (verifyClient s req)))"
    by (auto simp: acc t(1))
  show "verifyClient (snd (verifyClient s req)) req = (Reject 401, snd (verifyClient s req))"
    by (rule verifyClient_reject [OF gone])
qed

theorem verifyClient_one_shot_witness:
  "distinct (authorized ((TunnelServer no_options)\<lparr>authorized := [''T'']\<rparr>))
   \<and> fst (verifyClient ((TunnelServer no_options)\<lparr>authorized := [''T'']\<rparr>)
            (upgrade_request ''T'')) = Accept
   \<and> verifyClient
        (snd (verifyClient ((TunnelServer no_options)\<lparr>authorized := [''T'']\<rparr>)
               (upgrade_request ''T'')))
        (upgrade_request ''T'')
       = (Reject 401,
          snd (verifyClient ((TunnelServer no_options)\<lparr>authorized := [''T'']\<rparr>)
                (upgrade_request ''T'')))
   \<and> verifyClient (TunnelServer no_options) (upgrade_request ''T'')
       = (Reject 401, TunnelServer no_options)"
  using verifyClient_one_shot
          [of "(TunnelServer no_options)\<lparr>authorized := [''T'']\<rparr>" "upgrade_request ''T''"]
        verifyClient_one_shot [of "TunnelServer no_options" "upgrade_request ''T''"]
  by (simp add: TunnelServer_def upgrade_request_def extractTokenFromRequest_def)

section \<open>The cap on gateways\<close>

lemma upto_4002: "[4002..4004::int] = [4002, 4003, 4004]"
  by (simp add: upto_rec1)

text \<open>At the cap, \<open>createGateway\<close> calls back with the error and makes no gateway.\<close>

lemma createGateway_exhausted:
  "maxTunnels (options s) \<le> int (length (gateways s)) \<Longrightarrow>
     createGateway s token r
       = s\<lparr>outputs := outputs s @ [Callback_error ''Maximum number of tunnels open'']\<rparr>"
  by (simp add: createGateway_def)

text \<open>
  Claim C2. The number of live gateways is meant never to exceed \<open>maxTunnels\<close>. The
  check of \<open>createGateway\<close> counts the gateways that have opened, and a gateway is
  counted only from its \<open>open\<close> event on. With a cap of one, two calls made before
  either gateway has opened both pass the check, neither callback receives the error,
  and once both gateways have opened the server holds two gateways.
\<close>

theorem createGateway_race_exceeds_cap:
  "maxTunnels (options race_server) = 1
   \<and> gateways race_server = [(''A'', 0), (''B'', 1)]
   \<and> outputs race_server
       = [Emit_locked, Callback_gateway 0, Emit_locked, Callback_gateway 1]"
  by (simp add: race_server_def server_run_def TunnelServer_def merge_options_def DEFAULTS_def
        no_options_def createGateway_def gateway_on_open_def Let_def
        getAvailablePort_def push_range_eq upto_4002 array_get_def
        random_index_def round_to_double_def random_zero_def random_half_def)

section \<open>The lock signals\<close>

lemma length_AList_update:
  "length (AList.update k v al) = (if k \<in> fst ` set al then length al else Suc (length al))"
  by (induction al) (auto simp: image_iff)

lemma one_gateway_server_eq:
  "one_gateway_server =
     \<lparr>options = DEFAULTS, gateways = [(''A'', 0)], authorized = [''A''], usedPorts = [4002],
      created = [\<lparr>gw_port = Some 4002, gw_authID = ''A'', gw_usedPort = Some 4002\<rparr>],
      outputs = [Callback_gateway 0]\<rparr>"
  by (simp add: one_gateway_server_def server_run_def TunnelServer_def merge_options_def
        DEFAULTS_def no_options_def createGateway_def gateway_on_open_def Let_def
        getAvailablePort_def push_range_eq upto_4002 array_get_def
        random_index_def round_to_double_def random_zero_def random_half_def)

lemma pending_server_eq:
  "pending_server =
     \<lparr>options = DEFAULTS\<lparr>maxTunnels := 1\<rparr>, gateways = [], authorized = [], usedPorts = [],
      created = [\<lparr>gw_port = Some 4002, gw_authID = ''A'', gw_usedPort = None\<rparr>],
      outputs = []\<rparr>"
  by (simp add: pending_server_def server_run_def TunnelServer_def merge_options_def
        DEFAULTS_def no_options_def createGateway_def Let_def
        getAvailablePort_def push_range_eq upto_4002 array_get_def
        random_index_def round_to_double_def random_zero_def random_half_def)

lemma requested_server_eq:
  "requested_server =
     \<lparr>options = DEFAULTS, gateways = [], authorized = [], usedPorts = [],
      created = [\<lparr>gw_port = Some 4002, gw_authID = ''A'', gw_usedPort = None\<rparr>],
      outputs = []\<rparr>"
  by (simp add: requested_server_def server_run_def TunnelServer_def merge_options_def
        DEFAULTS_def no_options_def createGateway_def Let_def
        getAvailablePort_def push_range_eq upto_4002 array_get_def
        random_index_def round_to_double_def random_zero_def random_half_def)

text \<open>
  Claim C4, as the claim states it, fails: with the default cap of three and a single
  gateway open, the close of that gateway emits \<open>unlocked\<close>, although the server was
  below the cap before the close and stays below it.
\<close>

theorem unlocked_below_cap_counterexample:
  "int (length (gateways one_gateway_server)) < maxTunnels (options one_gateway_server)
   \<and> outputs (gateway_on_close one_gateway_server 0)
       = outputs one_gateway_server @ [Emit_unlocked]
   \<and> int (length (gateways (gateway_on_close one_gateway_server 0)))
       < maxTunnels (options one_gateway_server)"
  by (simp add: one_gateway_server_eq gateway_on_close_def Let_def DEFAULTS_def)

text \<open>
  Claim C4, amended. When a gateway opens, the server records it under its token, which
  adds one to the number of gateways unless the token was already a key. If that
  number is then \<open>maxTunnels\<close> the server emits \<open>locked\<close> before it calls back with
  the gateway, and if it is below \<open>maxTunnels\<close> it does not emit \<open>locked\<close>. When a
  gateway closes, the server emits \<open>unlocked\<close>, whatever the number of gateways was.
\<close>

theorem lock_signals:
  assumes "g < length (created s)"
  shows "(int (length (gateways (gateway_on_open s g token port))) < maxTunnels (options s) \<longrightarrow>
            outputs (gateway_on_open s g token port) = outputs s @ [Callback_gateway g])
       \<and> (int (length (gateways (gateway_on_open s g token port))) = maxTunnels (options s) \<longrightarrow>
            outputs (gateway_on_open s g token port)
              = outputs s @ [Emit_locked, Callback_gateway g])
       \<and> length (gateways (gateway_on_open s g token port))
           = (if token \<in> fst ` set (gateways s) then length (gateways s)
              else Suc (length (gateways s)))
       \<and> outputs (gateway_on_close s g) = outputs s @ [Emit_unlocked]"
  using assms
  by (simp add: gateway_on_open_def gateway_on_close_def Let_def length_AList_update)

theorem lock_signals_witness:
  "0 < length (created pending_server)
   \<and> outputs (gateway_on_open pending_server 0 ''A'' 4002) = [Emit_locked, Callback_gateway 0]
   \<and> length (gateways (gateway_on_open pending_server 0 ''A'' 4002)) = 1
   \<and> outputs (gateway_on_close pending_server 0) = [Emit_unlocked]
   \<and> 0 < length (created requested_server)
   \<and> outputs (gateway_on_open requested_server 0 ''A'' 4002) = [Callback_gateway 0]"
  using lock_signals [of 0 pending_server "''A''" 4002]
        lock_signals [of 0 requested_server "''A''" 4002]
  by (simp add: pending_server_eq requested_server_eq DEFAULTS_def)

section \<open>Port leasing\<close>

lemma distinct_free_ports: "distinct (free_ports s)"
  by (simp add: free_ports_def split: option.splits)

lemma set_free_ports:
  "range_min (gatewayPortRange (options s)) = Some lo \<Longrightarrow>
   range_max (gatewayPortRange (options s)) = Some hi \<Longrightarrow>
   set (free_ports s) = {p. lo \<le> p \<and> p \<le> hi \<and> p \<notin> set (usedPorts s)}"
  by (auto simp: free_ports_def)

lemma getAvailablePort_in_free:
  assumes mn: "range_min (gatewayPortRange (options s)) = Some lo" "lo \<noteq> 0"
    and d: "is_unit_double r" and ne: "free_ports s \<noteq> []"
  shows "random_index r (length (free_ports s)) < length (free_ports s)"
    and "getAvailablePort s r
           = Some (free_ports s ! random_index r (length (free_ports s)))"
proof -
  from ne have "0 < length (free_ports s)" by simp
  from random_index_less [OF d this]
  show lt: "random_index r (length (free_ports s)) < length (free_ports s)" .
  then show "getAvailablePort s r
           = Some (free_ports s ! random_index r (length (free_ports s)))"
    by (simp add: getAvailablePort_eq [OF mn] array_get_def)
qed

lemma getAvailablePort_none_free:
  assumes mn: "range_min (gatewayPortRange (options s)) = Some lo" "lo \<noteq> 0"
    and e: "free_ports s = []"
  shows "getAvailablePort s r = None"
  by (simp add: getAvailablePort_eq [OF mn] e array_get_def)

lemma upto_4002_4008: "[4002..4008::int] = [4002, 4003, 4004, 4005, 4006, 4007, 4008]"
  by (simp add: upto_rec1)

lemma free_ports_seven:
  "free_ports seven_port_server = [4002, 4003, 4004, 4005, 4006, 4007, 4008]"
  by (simp add: seven_port_server_def TunnelServer_def merge_options_def no_options_def
        free_ports_def upto_4002_4008)

lemma full_range_server_eq:
  "full_range_server =
     \<lparr>options = DEFAULTS\<lparr>gatewayPortRange := \<lparr>range_min = Some 5000, range_max = Some 5000\<rparr>\<rparr>,
      gateways = [(''A'', 0)], authorized = [''A''], usedPorts = [5000],
      created = [\<lparr>gw_port = Some 5000, gw_authID = ''A'', gw_usedPort = Some 5000\<rparr>],
      outputs = [Callback_gateway 0]\<rparr>"
  by (simp add: full_range_server_def server_run_def TunnelServer_def merge_options_def
        DEFAULTS_def no_options_def createGateway_def gateway_on_open_def Let_def
        getAvailablePort_def push_range_eq array_get_def
        random_index_def round_to_double_def random_zero_def)

text \<open>
  Claim C5, as the claim states it, fails: with the one-port range 5000..5000 and that
  port in use, the free subset is empty, yet \<open>getAvailablePort\<close> returns
  \<^verbatim>\<open>undefined\<close> and \<open>createGateway\<close> makes a gateway with it. No callback is called
  with an error.
\<close>

theorem no_free_port_counterexample:
  "free_ports full_range_server = []
   \<and> getAvailablePort full_range_server random_zero = None
   \<and> createGateway full_range_server ''B'' random_zero
       = full_range_server
           \<lparr>created := created full_range_server
                         @ [\<lparr>gw_port = None, gw_authID = ''B'', gw_usedPort = None\<rparr>]\<rparr>
   \<and> outputs (createGateway full_range_server ''B'' random_zero)
       = outputs full_range_server"
  by (simp add: full_range_server_eq free_ports_def createGateway_def getAvailablePort_def
        push_range_eq array_get_def splice1_def Let_def DEFAULTS_def)

text \<open>
  Claim C5, amended. With a truthy \<open>min\<close>, \<open>getAvailablePort\<close> picks from the free
  subset of the range. Let \<open>n\<close> be the size of the free subset, \<open>r\<close> the double in
  \<open>[0, 1)\<close> that \<^verbatim>\<open>Math.random()\<close> returns and \<open>i\<close> the floor of their double
  product. If the free subset is not empty, \<open>i\<close> is below \<open>n\<close> and the result is the
  free port at index \<open>i\<close>. The index is the floor of the exact product \<open>r * n\<close>, or
  the next integer when the product is within a relative \<open>2 ^ -53\<close> below it; so the
  free port at index \<open>k\<close> is the result for every \<open>r\<close> from \<open>k / n\<close> up to
  \<open>(k + 1) / n\<close> less that rounding, and for no \<open>r\<close> outside
  \<open>[k / n less the rounding, (k + 1) / n)\<close>: the choice is uniform up to the rounding
  of doubles. When the free subset is empty no error is reported: the result is
  \<^verbatim>\<open>undefined\<close>, and below the cap \<open>createGateway\<close> makes a gateway with that port
  value.
\<close>

theorem port_leasing:
  assumes "range_min (gatewayPortRange (options s)) = Some lo" "lo \<noteq> 0"
    and "is_unit_double r" and "length (free_ports s) < 2 ^ 53"
  shows "(free_ports s \<noteq> [] \<longrightarrow>
            random_index r (length (free_ports s)) < length (free_ports s)
          \<and> getAvailablePort s r
               = Some (free_ports s ! random_index r (length (free_ports s))))
       \<and> real (random_index r (length (free_ports s)))
            \<le> random_value r * real (length (free_ports s)) * (1 + 1 / 2 ^ 53)
       \<and> random_value r * real (length (free_ports s))
            < real (random_index r (length (free_ports s))) + 1
       \<and> (\<forall>k < length (free_ports s).
            real k \<le> random_value r * real (length (free_ports s))
            \<and> random_value r * real (length (free_ports s)) * (1 + 1 / 2 ^ 53) < real k + 1
            \<longrightarrow> getAvailablePort s r = Some (free_ports s ! k))
       \<and> (free_ports s = [] \<longrightarrow>
            (\<forall>r'. getAvailablePort s r' = None)
          \<and> (\<forall>token r'. int (length (gateways s)) < maxTunnels (options s) \<longrightarrow>
                createGateway s token r'
                  = s\<lparr>created := created s
                         @ [\<lparr>gw_port = None, gw_authID = token, gw_usedPort = None\<rparr>]\<rparr>))"
proof (intro conjI allI impI)
  assume ne: "free_ports s \<noteq> []"
  from getAvailablePort_in_free [OF assms(1,2,3) ne]
  show "random_index r (length (free_ports s)) < length (free_ports s)"
    and "getAvailablePort s r
           = Some (free_ports s ! random_index r (length (free_ports s)))" .
next
  from random_index_bounds [OF assms(3,4)]
  show "real (random_index r (length (free_ports s)))
            \<le> random_value r * real (length (free_ports s)) * (1 + 1 / 2 ^ 53)"
    and "random_value r * real (length (free_ports s))
            < real (random_index r (length (free_ports s))) + 1" .
next
  fix k
  assume k: "k < length (free_ports s)"
    and b: "real k \<le> random_value r * real (length (free_ports s))
            \<and> random_value r * real (length (free_ports s)) * (1 + 1 / 2 ^ 53) < real k + 1"
  from b have i: "random_index r (length (free_ports s)) = k"
    by (intro random_index_eq [OF assms(3,4)]) simp_all
  have ne: "free_ports s \<noteq> []"
  proof
    assume "free_ports s = []"
    with k show False by simp
  qed
  from getAvailablePort_in_free(2) [OF assms(1,2,3) ne] i
  show "getAvailablePort s r = Some (free_ports s ! k)" by simp
next
  fix r'
  assume "free_ports s = []"
  then show "getAvailablePort s r' = None"
    by (rule getAvailablePort_none_free [OF assms(1,2)])
next
  fix token r'
  assume e: "free_ports s = []" and c: "int (length (gateways s)) < maxTunnels (options s)"
  from c show "createGateway s token r'
                  = s\<lparr>created := created s
                         @ [\<lparr>gw_port = None, gw_authID = token, gw_usedPort = None\<rparr>]\<rparr>"
    by (simp add: createGateway_def getAvailablePort_none_free [OF assms(1,2) e])
qed

theorem port_leasing_witness:
  "range_min (gatewayPortRange (options seven_port_server)) = Some 4002
   \<and> is_unit_double random_near_four_sevenths
   \<and> length (free_ports seven_port_server) = 7
   \<and> random_value random_near_four_sevenths < 4 / 7
   \<and> random_index random_near_four_sevenths 7 = 4
   \<and> getAvailablePort seven_port_server random_near_four_sevenths = Some 4006
   \<and> is_unit_double random_half
   \<and> getAvailablePort seven_port_server random_half = Some 4005"
proof -
  have mn: "range_min (gatewayPortRange (options seven_port_server)) = Some 4002"
    by (simp add: seven_port_server_def TunnelServer_def merge_options_def no_options_def)
  have nz: "(4002::int) \<noteq> 0" by simp
  have d: "is_unit_double random_near_four_sevenths"
    by (simp add: is_unit_double_def random_near_four_sevenths_def)
  have h: "is_unit_double random_half"
    by (simp add: is_unit_double_def random_half_def)
  have len: "length (free_ports seven_port_server) < 2 ^ 53"
    by (simp add: free_ports_seven)
  have ne: "free_ports seven_port_server \<noteq> []" by (simp add: free_ports_seven)
  have len7: "length (free_ports seven_port_server) = 7" by (simp add: free_ports_seven)
  from port_leasing [OF mn nz d len] ne
  have "getAvailablePort seven_port_server random_near_four_sevenths
          = Some (free_ports seven_port_server
                    ! random_index random_near_four_sevenths (length (free_ports seven_port_server)))"
    by blast
  then have "getAvailablePort seven_port_server random_near_four_sevenths
          = Some (free_ports seven_port_server ! 4)"
    by (simp only: len7 random_index_near_four_sevenths)
  then have a: "getAvailablePort seven_port_server random_near_four_sevenths = Some 4006"
    by (simp add: free_ports_seven)
  have v: "random_value random_half = 1 / 2"
    by (simp add: random_value_def random_half_def)
  from port_leasing [OF mn nz h len]
  have "\<forall>k < length (free_ports seven_port_server).
            real k \<le> random_value random_half * real (length (free_ports seven_port_server))
            \<and> random_value random_half * real (length (free_ports seven_port_server))
                 * (1 + 1 / 2 ^ 53) < real k + 1
            \<longrightarrow> getAvailablePort seven_port_server random_half
                  = Some (free_ports seven_port_server ! k)"
    by blast
  then have "3 < length (free_ports seven_port_server) \<longrightarrow>
            real 3 \<le> random_value random_half * real (length (free_ports seven_port_server))
            \<and> random_value random_half * real (length (free_ports seven_port_server))
                 * (1 + 1 / 2 ^ 53) < real 3 + 1
            \<longrightarrow> getAvailablePort seven_port_server random_half
                  = Some (free_ports seven_port_server ! 3)"
    by blast
  then have "getAvailablePort seven_port_server random_half
                  = Some (free_ports seven_port_server ! 3)"
    by (simp add: len7 v)
  then have b: "getAvailablePort seven_port_server random_half = Some 4005"
    by (simp add: free_ports_seven)
  from mn d h a b len7 random_value_near_four_sevenths random_index_near_four_sevenths
  show ?thesis by simp
qed

section \<open>The default port range\<close>

text \<open>A falsy \<open>min\<close> (left out, or zero) makes \<open>getAvailablePort\<close> return port 0.\<close>

lemma getAvailablePort_falsy_min:
  "range_min (gatewayPortRange (options s)) = None
     \<or> range_min (gatewayPortRange (options s)) = Some 0
   \<Longrightarrow> getAvailablePort s r = Some 0"
  by (auto simp: getAvailablePort_def)

text \<open>
  Claim C9. With no options supplied, the port range the server leases from is the one
  of \<open>DEFAULTS\<close>: it starts at 4002 and ends at 4004, so three ports
  are leased, where the documented default and the claim end the range at 4003.
\<close>

theorem default_port_range:
  "gatewayPortRange (options (TunnelServer no_options))
     = \<lparr>range_min = Some 4002, range_max = Some 4004\<rparr>
   \<and> free_ports (TunnelServer no_options) = [4002, 4003, 4004]"
  by (simp add: TunnelServer_def merge_options_def DEFAULTS_def no_options_def
        free_ports_def upto_4002)

section \<open>The client's constructor and its POST callback\<close>

lemma emit_error_Inr [simp]:
  "emit_error c err = Inr c' \<longleftrightarrow>
     error_listener c \<and> c' = c\<lparr>emitted := emitted c @ [Event_error err]\<rparr>"
  by (auto simp: emit_error_def)

lemma emit_error_Inl [simp]:
  "emit_error c err = Inl ex \<longleftrightarrow> \<not> error_listener c \<and> ex = Unhandled_error err"
  by (auto simp: emit_error_def)

lemma TunnelClient_example:
  "TunnelClient (JString ''ws://10.0.0.1:4001/tun?token=T'') (JString ''http://127.0.0.1:4000'')
     = Inr example_client"
  by (simp add: TunnelClient_def example_client_def)

text \<open>
  Claim C10. When the tunnel argument or the target argument of the constructor is not
  a string, the constructor throws an assertion error and builds no client. When both
  are strings it returns a client whose \<open>readyState\<close> is \<open>CLOSED\<close> and whose
  channels map is empty.
\<close>

theorem TunnelClient_asserts:
  "(typeof tunnel_arg \<noteq> ''string'' \<or> typeof target_arg \<noteq> ''string'' \<longrightarrow>
      (\<exists>msg. TunnelClient tunnel_arg target_arg = Inl (AssertionError msg)))
   \<and> (typeof tunnel_arg = ''string'' \<and> typeof target_arg = ''string'' \<longrightarrow>
      (\<exists>c. TunnelClient tunnel_arg target_arg = Inr c
           \<and> readyState c = CLIENT_CLOSED \<and> channels c = []
           \<and> tunuri c = tunnel_arg \<and> target c = target_arg))"
  by (simp add: TunnelClient_def)

theorem TunnelClient_asserts_witness:
  "typeof (JNumber 4001) \<noteq> ''string''
   \<and> TunnelClient (JNumber 4001) (JString ''http://127.0.0.1:4000'')
       = Inl (AssertionError ''Invalid tunnel address supplied'')
   \<and> TunnelClient (JString ''ws://10.0.0.1:4001/tun?token=T'') JUndefined
       = Inl (AssertionError ''Invalid target address supplied'')
   \<and> (\<exists>c. TunnelClient (JString ''ws://10.0.0.1:4001/tun?token=T'') (JString ''http://127.0.0.1:4000'') = Inr c
           \<and> readyState c = CLIENT_CLOSED \<and> channels c = [])"
  using TunnelClient_asserts [of "JNumber 4001" "JString ''http://127.0.0.1:4000''"]
        TunnelClient_asserts [of "JString ''ws://10.0.0.1:4001/tun?token=T''" JUndefined]
        TunnelClient_asserts [of "JString ''ws://10.0.0.1:4001/tun?token=T''" "JString ''http://127.0.0.1:4000''"]
  by (auto simp: TunnelClient_def)




lemma wired_TunnelClient: "TunnelClient a b = Inr c \<Longrightarrow> wired c"
  by (auto simp: TunnelClient_def wired_def split: if_splits)

lemma wired_client_open: "wired (client_open c)"
  by (simp add: client_open_def wired_def)

lemma client_close_wired: "client_close c = Inr (r, c') \<Longrightarrow> wired c'"
  by (auto simp: client_close_def wired_def Let_def split: option.splits)

lemma muxer_write_fields:
  "muxer_write c f = Inr c' \<Longrightarrow> tunnel c' = tunnel c \<and> muxer c' = muxer c \<and> demuxer c' = demuxer c \<and> readyState c' = readyState c"
  by (auto simp: muxer_write_def split: option.splits)

lemma client_step_wiring:
  assumes "client_step fb c e = Inr c'"
  shows "(tunnel c' = tunnel c \<and> (muxer c = None \<longleftrightarrow> muxer c' = None) \<and> (demuxer c = None \<longleftrightarrow> demuxer c' = None) \<and> readyState c' = readyState c)
       \<or> (tunnel c' = None \<and> readyState c' = CLIENT_CLOSED)
       \<or> (e = Call_open \<and> c' = client_open c)"
proof (cases e)
  case Call_open
  with assms show ?thesis by simp
next
  case Call_close
  with assms show ?thesis
    by (auto simp: client_close_def Let_def map_sum_def split: option.splits sum.splits)
next
  case Call_on_error
  with assms show ?thesis by auto
next
  case (Demux_data f)
  with assms show ?thesis
    by (auto simp: demuxer_on_data_def handleRPC_def handleDataChannel_def sendToExistingSocket_def
          socket_send_def Let_def split: option.splits if_splits payload.splits)
next
  case (Demux_error x)
  with assms show ?thesis by (auto split: option.splits if_splits)
next
  case (Mux_error x)
  with assms show ?thesis by (auto split: option.splits if_splits)
next
  case (Ws_open sid)
  with assms show ?thesis
    by (auto simp: tunnel_on_open_def loopback_on_open_def set_readyState_def Let_def
          split: if_splits listeners.splits)
next
  case (Ws_error sid err)
  with assms show ?thesis
    by (auto simp: tunnel_on_error_def loopback_on_error_def client_close_def Let_def
          split: if_splits listeners.splits option.splits sum.splits)
next
  case (Ws_close sid code msg)
  with assms show ?thesis
    by (auto simp: tunnel_on_close_def loopback_on_close_def client_close_def muxer_write_def
          set_readyState_def Let_def map_sum_def
          split: if_splits listeners.splits option.splits sum.splits)
next
  case (Ws_message sid d b)
  with assms show ?thesis
    by (auto simp: loopback_on_message_def muxer_write_def
          split: if_splits listeners.splits option.splits)
next
  case (Http_response err body)
  with assms show ?thesis
    by (auto simp: forwardResponse_def muxer_write_def split: option.splits sum.splits)
qed

section \<open>The client's ready state and close\<close>

lemma wired_step: "wired c \<Longrightarrow> client_step fb c e = Inr c' \<Longrightarrow> wired c'"
  using client_step_wiring [of fb c e c'] wired_client_open [of c]
  by (auto simp: wired_def)

lemma wired_run: "wired c \<Longrightarrow> client_run fb c evs = Inr c' \<Longrightarrow> wired c'"
proof (induction evs arbitrary: c)
  case Nil
  then show ?case by simp
next
  case (Cons e es)
  then show ?case by (auto split: sum.splits dest: wired_step)
qed

lemma readyState_step:
  "readyState c = CLIENT_CLOSED \<Longrightarrow> client_step fb c e = Inr c' \<Longrightarrow> readyState c' = CLIENT_CLOSED"
  using client_step_wiring [of fb c e c']
  by (auto simp: client_open_def)

lemma readyState_never_open:
  "readyState c = CLIENT_CLOSED \<Longrightarrow> client_run fb c evs = Inr c' \<Longrightarrow> readyState c' = CLIENT_CLOSED"
proof (induction evs arbitrary: c)
  case Nil
  then show ?case by simp
next
  case (Cons e es)
  then show ?case by (auto split: sum.splits dest: readyState_step)
qed

text \<open>
  A client that has a socket or a demuxer has a muxer, and every client reached from
  a newly constructed one is wired and has a muxer as soon as it has a socket.
\<close>

lemma client_step_muxed:
  assumes step: "client_step fb c e = Inr c'"
    and inv: "sockets c \<noteq> [] \<or> demuxer c \<noteq> None \<longrightarrow> muxer c \<noteq> None"
  shows "sockets c' \<noteq> [] \<or> demuxer c' \<noteq> None \<longrightarrow> muxer c' \<noteq> None"
proof (cases e)
  case Call_open
  with step show ?thesis by (auto simp: client_open_def)
next
  case Call_close
  with step inv show ?thesis
    by (auto simp: client_close_def Let_def map_sum_def split: option.splits sum.splits)
next
  case Call_on_error
  with step inv show ?thesis by auto
next
  case (Demux_data f)
  with step inv show ?thesis
    by (auto simp: demuxer_on_data_def handleRPC_def handleDataChannel_def sendToExistingSocket_def
          socket_send_def Let_def split: option.splits if_splits payload.splits)
next
  case (Demux_error x)
  with step inv show ?thesis by (auto split: option.splits if_splits)
next
  case (Mux_error x)
  with step inv show ?thesis by (auto split: option.splits if_splits)
next
  case (Ws_open sid)
  with step inv show ?thesis
    by (auto simp: tunnel_on_open_def loopback_on_open_def set_readyState_def Let_def
          split: if_splits listeners.splits)
next
  case (Ws_error sid err)
  with step inv show ?thesis
    by (auto simp: tunnel_on_error_def loopback_on_error_def client_close_def Let_def
          split: if_splits listeners.splits option.splits sum.splits)
next
  case (Ws_close sid code msg)
  with step inv show ?thesis
    by (auto simp: tunnel_on_close_def loopback_on_close_def client_close_def muxer_write_def
          set_readyState_def Let_def map_sum_def
          split: if_splits listeners.splits option.splits sum.splits)
next
  case (Ws_message sid d b)
  with step inv show ?thesis
    by (auto simp: loopback_on_message_def muxer_write_def
          split: if_splits listeners.splits option.splits)
next
  case (Http_response err body)
  with step inv show ?thesis
    by (auto simp: forwardResponse_def muxer_write_def split: option.splits sum.splits)
qed

lemma client_run_muxed:
  "client_run fb c evs = Inr c' \<Longrightarrow>
   (sockets c \<noteq> [] \<or> demuxer c \<noteq> None \<longrightarrow> muxer c \<noteq> None) \<Longrightarrow>
   (sockets c' \<noteq> [] \<or> demuxer c' \<noteq> None \<longrightarrow> muxer c' \<noteq> None)"
proof (induction evs arbitrary: c)
  case Nil
  then show ?case by simp
next
  case (Cons e es)
  from Cons.prems(1) obtain c1 where s1: "client_step fb c e = Inr c1"
    and r1: "client_run fb c1 es = Inr c'"
    by (auto split: sum.splits)
  from client_step_muxed [OF s1 Cons.prems(2)] Cons.IH [OF r1] show ?case by blast
qed

lemma new_client_muxed:
  assumes "TunnelClient a b = Inr c0" "client_run fb c0 evs = Inr c" "sid < length (sockets c)"
  shows "muxer c \<noteq> None"
proof -
  from assms(1) have "sockets c0 = []" "demuxer c0 = None"
    by (auto simp: TunnelClient_def split: if_splits)
  with client_run_muxed [OF assms(2)] have "sockets c \<noteq> [] \<longrightarrow> muxer c \<noteq> None" by simp
  moreover from assms(3) have "sockets c \<noteq> []" by auto
  ultimately show ?thesis by simp
qed

lemma new_client_wired:
  assumes "TunnelClient a b = Inr c0" "client_run fb c0 evs = Inr c"
  shows "wired c"
  using wired_run [OF wired_TunnelClient [OF assms(1)] assms(2)] .

text \<open>
  Claim C3. \<open>open\<close> should take the client's \<open>readyState\<close> from \<open>CLOSED\<close> to
  \<open>OPEN\<close> when the tunnel socket reports \<open>open\<close>. The listener assigns
  \<^verbatim>\<open>this.readyState\<close>, and \<^verbatim>\<open>this\<close> is the socket: after \<open>open\<close> and the socket's
  \<open>open\<close> event the client has emitted \<open>open\<close>, the socket's \<open>readyState\<close> holds
  the value assigned, and the client's \<open>readyState\<close> is still \<open>CLOSED\<close>. By
  \<open>readyState_never_open\<close> it stays so whatever happens next.
\<close>

theorem open_leaves_client_closed:
  "\<exists>c. client_run accept_body example_client [Call_open, Ws_open 0] = Inr c
       \<and> emitted c = [Event_open]
       \<and> tunnel c = Some 0
       \<and> ws_readyState (sockets c ! 0) = CLIENT_OPEN
       \<and> readyState c = CLIENT_CLOSED
       \<and> readyState c \<noteq> CLIENT_OPEN"
  by (simp add: example_client_def client_open_def tunnel_on_open_def set_readyState_def
        WebSocketClient_def WS_OPEN_def WS_CONNECTING_def CLIENT_OPEN_def CLIENT_CLOSED_def)

text \<open>
  Claim C7. \<open>close\<close> is idempotent. On a wired client with a tunnel (every client
  reached from a new one is wired, by \<open>new_client_wired\<close>) the first call returns true and
  leaves \<open>readyState\<close> at \<open>CLOSED\<close>, and a second call returns false and changes
  nothing, so \<open>readyState\<close> is \<open>CLOSED\<close> after it too. Without a tunnel \<open>close\<close>
  returns false and changes nothing.
\<close>

theorem close_idempotent:
  assumes "wired c"
  shows "(tunnel c \<noteq> None \<longrightarrow>
            (\<exists>c1. client_close c = Inr (True, c1)
                 \<and> readyState c1 = CLIENT_CLOSED
                 \<and> client_close c1 = Inr (False, c1)))
       \<and> (tunnel c = None \<longrightarrow> client_close c = Inr (False, c))"
  using assms
  by (auto simp: wired_def client_close_def Let_def)

theorem close_idempotent_witness:
  "wired (client_open example_client)
   \<and> (\<exists>c1. client_close (client_open example_client) = Inr (True, c1)
           \<and> readyState c1 = CLIENT_CLOSED
           \<and> client_close c1 = Inr (False, c1))
   \<and> wired example_client
   \<and> client_close example_client = Inr (False, example_client)"
proof -
  have w1: "wired (client_open example_client)" by (rule wired_client_open)
  have w0: "wired example_client" by (simp add: wired_def example_client_def)
  have t1: "tunnel (client_open example_client) \<noteq> None" by (simp add: client_open_def)
  have t0: "tunnel example_client = None" by (simp add: example_client_def)
  from close_idempotent [OF w1] t1 close_idempotent [OF w0] t0 w0 w1 show ?thesis by blast
qed


section \<open>The terminal frame of a data channel\<close>

lemma wiring_sockets_update:
  assumes "ws_listeners sock' = ws_listeners (sockets c ! i)"
  shows "map ws_listeners ((sockets c)[i := sock']) = map ws_listeners (sockets c)"
proof (cases "i < length (sockets c)")
  case True
  have "map ws_listeners ((sockets c)[i := sock'])
          = (map ws_listeners (sockets c))[i := ws_listeners (sockets c ! i)]"
    by (simp add: map_update assms)
  also from True have "\<dots> = (map ws_listeners (sockets c))[i := map ws_listeners (sockets c) ! i]"
    by simp
  also have "\<dots> = map ws_listeners (sockets c)"
    by (rule list_update_id)
  finally show ?thesis .
next
  case False
  then have "length (sockets c) \<le> i" by linarith
  then have "(sockets c)[i := sock'] = sockets c" by (rule list_update_beyond)
  then show ?thesis by (rule arg_cong)
qed

lemma client_close_effect:
  "client_close c = Inr (r, c') \<Longrightarrow> wiring c' = wiring c \<and> written c' = written c"
  unfolding wiring_def
  by (auto simp: client_close_def Let_def wiring_sockets_update split: option.splits)

lemma muxer_write_effect:
  "muxer_write c f = Inr c' \<Longrightarrow> wiring c' = wiring c \<and> written c' = written c @ [f]"
  by (auto simp: muxer_write_def wiring_def split: option.splits)

lemma set_readyState_effect:
  "wiring (set_readyState c sid st) = wiring c \<and> written (set_readyState c sid st) = written c
   \<and> length (sockets (set_readyState c sid st)) = length (sockets c)"
  by (simp add: set_readyState_def wiring_def wiring_sockets_update)

lemma demuxer_on_data_effect:
  assumes "demuxer_on_data c f = Inr c'"
  shows "written c' = written c
       \<and> (wiring c' = wiring c
          \<or> (frame_type f = ''datachannel''
              \<and> wiring c' = wiring c @ [Loopback_listeners (quid (frame_flags f)) (frame_data f) (binary (frame_flags f))]))"
  using assms unfolding wiring_def
  by (auto simp: demuxer_on_data_def handleRPC_def handleDataChannel_def sendToExistingSocket_def
        socket_send_def Let_def wiring_sockets_update WebSocketClient_def
        split: option.splits if_splits payload.splits)

lemma client_step_effect:
  assumes "client_step fb c e = Inr c'"
  shows "(wiring c' = wiring c
          \<or> wiring c' = wiring c @ [Tunnel_listeners]
          \<or> (\<exists>q d b. inbound_for q e \<and> wiring c' = wiring c @ [Loopback_listeners q d b]))
       \<and> (written c' = written c
          \<or> (\<exists>fr. written c' = written c @ [fr]
                \<and> (frame_type fr = ''rpc''
                    \<or> (\<exists>sid. input_socket e = Some sid \<and> sid < length (sockets c)
                          \<and> bound_to (quid (frame_flags fr)) (ws_listeners (sockets c ! sid))))))"
proof (cases e)
  case Call_open
  with assms show ?thesis by (auto simp: client_open_def wiring_def WebSocketClient_def)
next
  case Call_close
  with assms show ?thesis
    by (auto simp: map_sum_def split: sum.splits dest: client_close_effect)
next
  case Call_on_error
  with assms show ?thesis by (auto simp: wiring_def)
next
  case (Demux_data f)
  with assms demuxer_on_data_effect [of c f c'] show ?thesis
    by (auto split: option.splits if_splits)
next
  case (Demux_error x)
  with assms show ?thesis by (auto simp: wiring_def split: option.splits if_splits)
next
  case (Mux_error x)
  with assms show ?thesis by (auto simp: wiring_def split: option.splits if_splits)
next
  case (Ws_open sid)
  with assms show ?thesis
    unfolding wiring_def
    by (auto simp: tunnel_on_open_def loopback_on_open_def set_readyState_def Let_def
          wiring_sockets_update split: if_splits listeners.splits)
next
  case (Ws_error sid err)
  with assms show ?thesis
    by (auto simp: tunnel_on_error_def loopback_on_error_def wiring_def
          split: if_splits listeners.splits sum.splits dest: client_close_effect)
next
  case (Ws_close sid code msg)
  show ?thesis
  proof (cases "sid < length (sockets c)")
    case False
    with assms Ws_close show ?thesis by simp
  next
    case True
    note sid = this
    show ?thesis
    proof (cases "ws_listeners (sockets c ! sid)")
      case Tunnel_listeners
      with assms Ws_close sid set_readyState_effect [of c sid WS_CLOSED] show ?thesis
        by (auto simp: tunnel_on_close_def map_sum_def split: sum.splits dest!: client_close_effect)
    next
      case (Loopback_listeners q d b)
      with assms Ws_close sid
      have "muxer_write ((set_readyState c sid WS_CLOSED)\<lparr>channels := AList.delete (key_of q) (channels (set_readyState c sid WS_CLOSED))\<rparr>)
              \<lparr>frame_type = ''datachannel'', frame_data = Json_code_message code msg,
               frame_flags = \<lparr>binary = Some False, quid = q\<rparr>\<rparr> = Inr c'"
        by (simp add: loopback_on_close_def)
      from muxer_write_effect [OF this] set_readyState_effect [of c sid WS_CLOSED]
      have "wiring c' = wiring c"
        and "written c' = written c @ [\<lparr>frame_type = ''datachannel'', frame_data = Json_code_message code msg,
               frame_flags = \<lparr>binary = Some False, quid = q\<rparr>\<rparr>]"
        by (simp_all add: wiring_def)
      with Ws_close sid Loopback_listeners show ?thesis by simp
    qed
  qed
next
  case (Ws_message sid d b)
  with assms show ?thesis
    by (auto simp: loopback_on_message_def split: if_splits listeners.splits option.splits
          dest!: muxer_write_effect)
next
  case (Http_response err body)
  with assms show ?thesis
    by (auto simp: forwardResponse_def wiring_def split: option.splits sum.splits dest!: muxer_write_effect)
qed

lemmas client_eval =
  client_open_def tunnel_on_open_def set_readyState_def WebSocketClient_def
  demuxer_on_data_def handleDataChannel_def handleRPC_def sendToExistingSocket_def socket_send_def
  loopback_on_open_def loopback_on_message_def loopback_on_close_def loopback_on_error_def
  emit_error_def
  muxer_write_def forwardResponse_def key_of_def datachannel_frame_def
  WS_OPEN_def WS_CONNECTING_def WS_CLOSED_def WS_CLOSING_def CLIENT_OPEN_def CLIENT_CLOSED_def Let_def

lemma session_client_run:
  "client_run accept_body example_client session_inputs = Inr session_client"
  by (simp add: session_inputs_def session_client_def example_client_def client_eval)

lemma closed_session_step:
  "client_step accept_body session_client (Ws_close 1 1000 ''bye'') = Inr closed_session_client"
  by (simp add: session_client_def closed_session_client_def example_client_def terminal_frame_def client_eval)

text \<open>
  Claim C6, as the claim states it, fails. After the loopback socket of the quid \<open>Q\<close>
  has closed and the terminal frame is written, an inbound frame for \<open>Q\<close> makes the
  client open a new loopback socket for \<open>Q\<close> (the channel was removed), and a message
  of that socket is written to the muxer as a further frame for \<open>Q\<close>.
\<close>

theorem frame_after_terminal_counterexample:
  "client_step accept_body session_client (Ws_close 1 1000 ''bye'') = Inr closed_session_client
   \<and> written closed_session_client
       = [datachannel_frame ''Q'' True (Buffer [2]), terminal_frame (Some ''Q'') 1000 ''bye'']
   \<and> (\<exists>c. client_run accept_body closed_session_client
             [Demux_data (datachannel_frame ''Q'' True (Buffer [3])), Ws_open 2,
              Ws_message 2 (Buffer [4]) (Some True)] = Inr c
          \<and> written c
             = [datachannel_frame ''Q'' True (Buffer [2]), terminal_frame (Some ''Q'') 1000 ''bye'',
                datachannel_frame ''Q'' True (Buffer [4])])"
  by (simp add: closed_session_step)
     (simp add: session_client_def closed_session_client_def example_client_def terminal_frame_def client_eval)

lemma frames_for_append_other:
  "\<not> (frame_type fr = ''datachannel'' \<and> quid (frame_flags fr) = q) \<Longrightarrow>
     frames_for q (fs @ [fr]) = frames_for q fs"
  by (simp add: frames_for_def)

lemma inbound_for_unique: "inbound_for q' e \<Longrightarrow> inbound_for q e \<Longrightarrow> q' = q"
  by (cases e) simp_all

lemma bound_to_unique: "bound_to q' l \<Longrightarrow> bound_to q l \<Longrightarrow> q' = q"
  by (cases l) simp_all

lemma quiet_step:
  assumes ext: "wiring c = wiring c0 @ ext" and free: "\<forall>l \<in> set ext. \<not> bound_to q l"
    and quiet: "quiet_input c0 q e" and step: "client_step fb c e = Inr c'"
  shows "(\<exists>ext'. wiring c' = wiring c0 @ ext' \<and> (\<forall>l \<in> set ext'. \<not> bound_to q l))
       \<and> frames_for q (written c') = frames_for q (written c)"
proof
  note eff = client_step_effect [OF step]
  from quiet have nin: "\<not> inbound_for q e" by (simp add: quiet_input_def)
  from eff have "wiring c' = wiring c
          \<or> wiring c' = wiring c @ [Tunnel_listeners]
          \<or> (\<exists>q' d b. inbound_for q' e \<and> wiring c' = wiring c @ [Loopback_listeners q' d b])"
    by blast
  then consider (same) "wiring c' = wiring c"
    | (tun) "wiring c' = wiring c @ [Tunnel_listeners]"
    | (loop) q' d b where "inbound_for q' e" "wiring c' = wiring c @ [Loopback_listeners q' d b]"
    by blast
  then show "\<exists>ext'. wiring c' = wiring c0 @ ext' \<and> (\<forall>l \<in> set ext'. \<not> bound_to q l)"
  proof cases
    case same
    with ext free show ?thesis by auto
  next
    case tun
    with ext free have "wiring c' = wiring c0 @ (ext @ [Tunnel_listeners])"
      and "\<forall>l \<in> set (ext @ [Tunnel_listeners]). \<not> bound_to q l" by auto
    then show ?thesis by blast
  next
    case loop
    from loop(1) nin have "q' \<noteq> q" by auto
    with loop(2) ext free have "wiring c' = wiring c0 @ (ext @ [Loopback_listeners q' d b])"
      and "\<forall>l \<in> set (ext @ [Loopback_listeners q' d b]). \<not> bound_to q l" by auto
    then show ?thesis by blast
  qed
next
  note eff = client_step_effect [OF step]
  from eff have "written c' = written c
          \<or> (\<exists>fr. written c' = written c @ [fr]
                \<and> (frame_type fr = ''rpc''
                    \<or> (\<exists>sid. input_socket e = Some sid \<and> sid < length (sockets c)
                          \<and> bound_to (quid (frame_flags fr)) (ws_listeners (sockets c ! sid)))))"
    by blast
  then consider (same) "written c' = written c"
    | (rpc) fr where "written c' = written c @ [fr]" "frame_type fr = ''rpc''"
    | (sock) fr sid where "written c' = written c @ [fr]" "input_socket e = Some sid"
        "sid < length (sockets c)" "bound_to (quid (frame_flags fr)) (ws_listeners (sockets c ! sid))"
    by blast
  then show "frames_for q (written c') = frames_for q (written c)"
  proof cases
    case same
    then show ?thesis by simp
  next
    case rpc
    then show ?thesis by (simp add: frames_for_def)
  next
    case sock
    have nb: "\<not> bound_to q (ws_listeners (sockets c ! sid))"
    proof (cases "sid < length (sockets c0)")
      case True
      with quiet sock(2) have "\<not> bound_to q (ws_listeners (sockets c0 ! sid))"
        by (simp add: quiet_input_def)
      moreover have "wiring c ! sid = wiring c0 ! sid"
      proof -
        from True have "sid < length (wiring c0)" by (simp add: wiring_def)
        then have "(wiring c0 @ ext) ! sid = wiring c0 ! sid" by (simp add: nth_append)
        then show ?thesis by (simp only: ext)
      qed
      moreover from sock(3) have "wiring c ! sid = ws_listeners (sockets c ! sid)"
        by (simp add: wiring_def)
      moreover from True have "wiring c0 ! sid = ws_listeners (sockets c0 ! sid)"
        by (simp add: wiring_def)
      ultimately show ?thesis by simp
    next
      case False
      from sock(3) have lt: "sid < length (wiring c)" by (simp add: wiring_def)
      from False have ge: "length (wiring c0) \<le> sid" by (simp add: wiring_def)
      from lt have "sid < length (wiring c0 @ ext)" by (simp only: ext)
      with ge have "sid - length (wiring c0) < length ext" by simp
      then have "ext ! (sid - length (wiring c0)) \<in> set ext" by (rule nth_mem)
      moreover from ge have "(wiring c0 @ ext) ! sid = ext ! (sid - length (wiring c0))"
        by (simp add: nth_append)
      then have "wiring c ! sid = ext ! (sid - length (wiring c0))" by (simp only: ext)
      ultimately have "wiring c ! sid \<in> set ext" by simp
      with free have "\<not> bound_to q (wiring c ! sid)" by blast
      moreover from sock(3) have "wiring c ! sid = ws_listeners (sockets c ! sid)"
        by (simp add: wiring_def)
      ultimately show ?thesis by simp
    qed
    from sock(4) nb have "quid (frame_flags fr) \<noteq> q" by auto
    with sock(1) show ?thesis by (simp add: frames_for_def)
  qed
qed

lemma quiet_run:
  assumes "wiring c = wiring c0 @ ext" "\<forall>l \<in> set ext. \<not> bound_to q l"
    and "\<forall>e \<in> set evs. quiet_input c0 q e" and "client_run fb c evs = Inr c'"
  shows "frames_for q (written c') = frames_for q (written c)"
  using assms
proof (induction evs arbitrary: c ext)
  case Nil
  then show ?case by simp
next
  case (Cons e es)
  from Cons.prems(4) obtain c1 where s1: "client_step fb c e = Inr c1"
    and r1: "client_run fb c1 es = Inr c'"
    by (auto split: sum.splits)
  from Cons.prems(3) have q: "quiet_input c0 q e" and qs: "\<forall>e \<in> set es. quiet_input c0 q e"
    by simp_all
  from quiet_step [OF Cons.prems(1) Cons.prems(2) q s1]
  obtain ext' where e': "wiring c1 = wiring c0 @ ext'" "\<forall>l \<in> set ext'. \<not> bound_to q l"
    and f: "frames_for q (written c1) = frames_for q (written c)"
    by blast
  from Cons.IH [OF e' qs r1] f show ?case by simp
qed

text \<open>
  Claim C6, amended. When a loopback socket for the quid \<open>q\<close> closes with a code
  and a message, and the client has a muxer (as every client reached from a new one
  has, by \<open>new_client_muxed\<close>), the client removes the channel of \<open>q\<close>
  and writes to the muxer, as its next frame, a data-channel frame for \<open>q\<close> with
  \<open>binary\<close> false whose data is the JSON serialization of the code and the message.
  No further frame for \<open>q\<close> is written as long as the inputs are quiet for \<open>q\<close>:
  no inbound data-channel frame for \<open>q\<close> arrives (which would open a new loopback
  socket for it) and no socket that was made for \<open>q\<close> raises an event.
\<close>

theorem terminal_frame_written:
  assumes sid: "sid < length (sockets c)"
    and l: "ws_listeners (sockets c ! sid) = Loopback_listeners q d b"
    and m: "muxer c \<noteq> None"
  shows "\<exists>c'. client_step fb c (Ws_close sid code message) = Inr c'
            \<and> map_of (channels c') (key_of q) = None
            \<and> written c' = written c @ [terminal_frame q code message]
            \<and> (\<forall>evs c''. (\<forall>e \<in> set evs. quiet_input c' q e) \<and> client_run fb c' evs = Inr c''
                  \<longrightarrow> frames_for q (written c'') = frames_for q (written c'))"
proof -
  let ?c1 = "set_readyState c sid WS_CLOSED"
  let ?c' = "?c1\<lparr>channels := AList.delete (key_of q) (channels ?c1),
                  written := written ?c1 @ [terminal_frame q code message]\<rparr>"
  from m have m1: "muxer ?c1 \<noteq> None" by (simp add: set_readyState_def)
  from sid l m1 have step: "client_step fb c (Ws_close sid code message) = Inr ?c'"
    by (auto simp: loopback_on_close_def muxer_write_def terminal_frame_def)
  have ch: "map_of (channels ?c') (key_of q) = None"
    by (simp add: map_of_eq_None_iff[symmetric] delete_conv')
  have wr: "written ?c' = written c @ [terminal_frame q code message]"
    by (simp add: set_readyState_def)
  have quiet: "frames_for q (written c'') = frames_for q (written ?c')"
    if "\<forall>e \<in> set evs. quiet_input ?c' q e" "client_run fb ?c' evs = Inr c''" for evs c''
    using quiet_run [of ?c' ?c' "[]" q evs fb c''] that by simp
  from step ch wr quiet show ?thesis by blast
qed

lemma other_traffic_runs:
  "\<exists>c. client_run accept_body closed_session_client other_traffic = Inr c"
  by (simp add: other_traffic_def session_client_def closed_session_client_def example_client_def
        terminal_frame_def accept_body_def client_eval)

lemma other_traffic_quiet:
  "\<forall>e \<in> set other_traffic. quiet_input closed_session_client (Some ''Q'') e"
  by (simp add: other_traffic_def quiet_input_def datachannel_frame_def closed_session_client_def
        session_client_def)

theorem terminal_frame_written_witness:
  "1 < length (sockets session_client)
   \<and> ws_listeners (sockets session_client ! 1)
       = Loopback_listeners (Some ''Q'') (Buffer [1]) (Some True)
   \<and> muxer session_client \<noteq> None
   \<and> client_step accept_body session_client (Ws_close 1 1000 ''bye'') = Inr closed_session_client
   \<and> map_of (channels closed_session_client) ''Q'' = None
   \<and> written closed_session_client
       = written session_client @ [terminal_frame (Some ''Q'') 1000 ''bye'']
   \<and> (\<exists>c. client_run accept_body closed_session_client other_traffic = Inr c
          \<and> frames_for (Some ''Q'') (written c)
             = [datachannel_frame ''Q'' True (Buffer [2]), terminal_frame (Some ''Q'') 1000 ''bye''])"
proof -
  have sid: "1 < length (sockets session_client)"
    and l: "ws_listeners (sockets session_client ! 1)
              = Loopback_listeners (Some ''Q'') (Buffer [1]) (Some True)"
    and m: "muxer session_client \<noteq> None"
    by (simp_all add: session_client_def)
  from terminal_frame_written [OF sid l m, of accept_body 1000 "''bye''"]
  obtain c' where step: "client_step accept_body session_client (Ws_close 1 1000 ''bye'') = Inr c'"
    and ch: "map_of (channels c') (key_of (Some ''Q'')) = None"
    and wr: "written c' = written session_client @ [terminal_frame (Some ''Q'') 1000 ''bye'']"
    and later: "\<And>evs c''. (\<forall>e \<in> set evs. quiet_input c' (Some ''Q'') e) \<Longrightarrow>
                  client_run accept_body c' evs = Inr c'' \<Longrightarrow>
                  frames_for (Some ''Q'') (written c'') = frames_for (Some ''Q'') (written c')"
    by blast
  from step [unfolded closed_session_step] have c': "c' = closed_session_client" by simp
  from other_traffic_runs obtain c
    where run: "client_run accept_body closed_session_client other_traffic = Inr c" by blast
  from later [of other_traffic c] other_traffic_quiet run
  have "frames_for (Some ''Q'') (written c) = frames_for (Some ''Q'') (written closed_session_client)"
    by (simp add: c')
  also have "\<dots> = [datachannel_frame ''Q'' True (Buffer [2]), terminal_frame (Some ''Q'') 1000 ''bye'']"
    by (simp add: closed_session_client_def frames_for_def datachannel_frame_def terminal_frame_def)
  finally have fr: "frames_for (Some ''Q'') (written c)
             = [datachannel_frame ''Q'' True (Buffer [2]), terminal_frame (Some ''Q'') 1000 ''bye'']" .
  from ch have ch': "map_of (channels closed_session_client) ''Q'' = None"
    by (simp add: c' key_of_def)
  from sid l m step c' ch' wr run fr show ?thesis by blast
qed

end
